theory Spec2Isabelle
  imports Complex_Main "HOL-Library.Sublist"
begin

section \<open>Data model\<close>

text \<open>
  The program is \<^verbatim>\<open>src/main.py\<close>, class \<^verbatim>\<open>ProxyBot\<close>. A Python \<^verbatim>\<open>str\<close> is a
  \<^typ>\<open>string\<close>, each \<^typ>\<open>char\<close> read as one code point below 256. A Python float
  (a duration in seconds) is an exact rational, a \<^verbatim>\<open>datetime\<close> is an integer number of
  microseconds since the epoch, and a Python \<^verbatim>\<open>int\<close> is an \<^typ>\<open>int\<close>. Console output
  (\<^verbatim>\<open>print\<close>) is not modelled.
\<close>

type_synonym timestamp = int

type_synonym seconds = rat

text \<open>The exceptions of the source that the model keeps as values.\<close>

datatype error = DuplicateKeyError | ValueError | TypeError | AttributeError

text \<open>
  The document \<^verbatim>\<open>validate_proxy\<close> builds (lines 125-132) and the collection stores. The
  host type is a parameter: the text sources give strings, the structured source gives
  whatever JSON value the payload holds.
\<close>

record 'h proxy_doc =
  ip :: 'h
  port :: int
  protocol :: string
  is_working :: bool
  response_time :: seconds
  last_checked :: timestamp
  status_code :: int
  test_url :: string

text \<open>
  The collection, in insertion order. The unique index of lines 56-59 is on
  \<^verbatim>\<open>(ip, port, protocol)\<close>; its keys are compared with HOL equality.
\<close>

type_synonym 'h store = "'h proxy_doc list"

definition key :: "'h proxy_doc \<Rightarrow> 'h \<times> int \<times> string" where
  "key d = (ip d, port d, protocol d)"

definition unique_index :: "'h store \<Rightarrow> bool" where
  "unique_index s = distinct (map key s)"

section \<open>Store operations\<close>

text \<open>\<^verbatim>\<open>collection.insert_one\<close> under the unique index: a second document with the
  same key raises \<^verbatim>\<open>DuplicateKeyError\<close>.\<close>

definition insert_one :: "'h proxy_doc \<Rightarrow> 'h store \<Rightarrow> error + 'h store" where
  "insert_one d s = (if key d \<in> set (map key s) then Inl DuplicateKeyError else Inr (s @ [d]))"

text \<open>\<^verbatim>\<open>collection.update_one(filter, {"$set": {"last_checked": lc, "response_time": rt}})\<close>
  (lines 144-147): the first document matching the filter gets the two fields set.\<close>

fun update_one :: "'h \<times> int \<times> string \<Rightarrow> timestamp \<Rightarrow> seconds \<Rightarrow> 'h store \<Rightarrow> 'h store" where
  "update_one k lc rt [] = []"
| "update_one k lc rt (r # rs) =
     (if key r = k then r\<lparr>last_checked := lc, response_time := rt\<rparr> # rs
      else r # update_one k lc rt rs)"

text \<open>\<^verbatim>\<open>store_proxy\<close> (lines 137-147). \<open>now\<close> is what \<^verbatim>\<open>datetime.now(timezone.utc)\<close>
  returns inside the \<^verbatim>\<open>except\<close> branch.\<close>

definition store_proxy :: "timestamp \<Rightarrow> 'h proxy_doc \<Rightarrow> 'h store \<Rightarrow> error + 'h store" where
  "store_proxy now proxy_doc s =
     (case insert_one proxy_doc s of
        Inr s' \<Rightarrow> Inr s'
      | Inl DuplicateKeyError \<Rightarrow> Inr (update_one (key proxy_doc) now (response_time proxy_doc) s)
      | Inl e \<Rightarrow> Inl e)"

text \<open>\<^verbatim>\<open>collection.find({"is_working": True})\<close> (line 205).\<close>

definition find_working :: "'h store \<Rightarrow> 'h proxy_doc list" where
  "find_working s = filter is_working s"

text \<open>Repeated calls of \<^verbatim>\<open>store_proxy\<close>, each with the clock reading of its own
  \<^verbatim>\<open>except\<close> branch.\<close>

fun store_proxy_calls :: "(timestamp \<times> 'h proxy_doc) list \<Rightarrow> 'h store \<Rightarrow> error + 'h store" where
  "store_proxy_calls [] s = Inr s"
| "store_proxy_calls ((now, d) # cs) s =
     (case store_proxy now d s of Inl e \<Rightarrow> Inl e | Inr s' \<Rightarrow> store_proxy_calls cs s')"

section \<open>Probes\<close>

text \<open>Lines 27 and 29.\<close>

definition VALIDATION_URL :: string where
  "VALIDATION_URL = ''http://httpbin.org/ip''"

definition TARGET_ENDPOINT :: string where
  "TARGET_ENDPOINT = ''http://16.171.170.83:3000/''"

text \<open>
  What one call of \<^verbatim>\<open>requests.get\<close> does: it returns a response with a status code,
  or it raises (a timeout, a refused connection, any other \<^verbatim>\<open>Exception\<close>) with the
  message \<^verbatim>\<open>str(e)\<close>.
\<close>

datatype http_outcome = Response int | Raised string

text \<open>
  The world of one GET of a probe, once its route is fixed. \<open>attempts w n\<close> is what
  the \<open>n\<close>-th GET would do, \<open>t_start\<close> and \<open>t_end\<close> are the two readings of
  \<^verbatim>\<open>time.time()\<close>, and \<open>utc_now\<close> is the reading of
  \<^verbatim>\<open>datetime.now(timezone.utc)\<close>.
\<close>

record probe_world =
  attempts :: "nat \<Rightarrow> http_outcome"
  t_start :: seconds
  t_end :: seconds
  utc_now :: timestamp

text \<open>\<^verbatim>\<open>round(x, 3)\<close>: to the nearest multiple of \<open>1/1000\<close>, a tie to the even one.\<close>

definition py_round3 :: "seconds \<Rightarrow> seconds" where
  "py_round3 x =
     (let y = x * 1000; n = \<lfloor>y\<rfloor>; f = y - of_int n
      in of_int (if f < 1/2 then n else if 1/2 < f then n + 1
                 else if even n then n else n + 1) / 1000)"

text \<open>\<^verbatim>\<open>str(n)\<close> of an integer.\<close>

definition digit_char :: "nat \<Rightarrow> char" where
  "digit_char n = ''0123456789'' ! n"

function nat_digits :: "nat \<Rightarrow> string" where
  "nat_digits n = (if n < 10 then [digit_char n] else nat_digits (n div 10) @ [digit_char (n mod 10)])"
  by pat_completeness auto
termination
  by (relation "measure id") auto

definition py_str_int :: "int \<Rightarrow> string" where
  "py_str_int i = (if i < 0 then CHR ''-'' # nat_digits (nat (- i)) else nat_digits (nat i))"

subsection \<open>The route of a GET\<close>

text \<open>
  The scheme and the host name that \<^verbatim>\<open>urlparse\<close> reads in a URL of the form
  \<^verbatim>\<open>scheme://host[:port][/path]\<close> written in lower case, as the URL of line 27 is.
\<close>

definition url_scheme :: "string \<Rightarrow> string" where
  "url_scheme u = takeWhile (\<lambda>c. c \<noteq> CHR '':'') u"

definition url_hostname :: "string \<Rightarrow> string" where
  "url_hostname u =
     takeWhile (\<lambda>c. c \<notin> set ''/:?#'') (drop 3 (dropWhile (\<lambda>c. c \<noteq> CHR '':'') u))"

text \<open>
  How \<^verbatim>\<open>requests\<close> picks the proxy of a GET from the \<^verbatim>\<open>proxies\<close> mapping it is
  given (\<^verbatim>\<open>requests.utils.select_proxy\<close>, in a process whose environment sets no
  proxy): the mapping is asked for four keys made of the scheme and the host name of the
  target, in this order, and the first key it has gives the proxy. With none of them
  the GET goes to the target directly.
\<close>

definition select_proxy :: "string \<Rightarrow> (string \<times> string) list \<Rightarrow> string option" where
  "select_proxy url proxies =
     (case filter (\<lambda>k. k \<in> set (map fst proxies))
             [url_scheme url @ ''://'' @ url_hostname url, url_scheme url,
              ''all://'' @ url_hostname url, ''all''] of
        [] \<Rightarrow> None
      | k # _ \<Rightarrow> map_of proxies k)"

text \<open>
  \<^verbatim>\<open>requests.get(url, proxies=proxies, timeout=...)\<close>: \<open>routes r\<close> is the world of the
  GET sent by the route \<open>r\<close>, which is \<open>Some u\<close> through the proxy at the URL \<open>u\<close> and
  \<open>None\<close> directly.
\<close>

definition requests_get :: "(string option \<Rightarrow> probe_world) \<Rightarrow> string \<Rightarrow> (string \<times> string) list \<Rightarrow> probe_world" where
  "requests_get routes url proxies = routes (select_proxy url proxies)"

text \<open>
  \<^verbatim>\<open>validate_proxy\<close> (lines 112-135): one GET, the first of its world. \<open>str_host\<close> is
  how the f-string of line 115 formats the host (the identity on a string).
\<close>

definition validate_proxy ::
    "('h \<Rightarrow> string) \<Rightarrow> (string option \<Rightarrow> probe_world) \<Rightarrow> 'h \<times> int \<times> string \<Rightarrow> 'h proxy_doc option" where
  "validate_proxy str_host routes proxy_tuple =
     (case proxy_tuple of (h, p, proto) \<Rightarrow>
        (let proxy_url = proto @ ''://'' @ str_host h @ '':'' @ py_str_int p;
             proxies = (if prefix ''http'' proto
                        then [(proto, proxy_url), (proto @ ''s'', proxy_url)]
                        else [(proto, proxy_url)]);
             w = requests_get routes VALIDATION_URL proxies
         in case attempts w 0 of
              Raised e \<Rightarrow> None
            | Response sc \<Rightarrow>
                if sc = 200 then
                  Some \<lparr>ip = h, port = p, protocol = proto, is_working = True,
                        response_time = py_round3 (t_end w - t_start w),
                        last_checked = utc_now w, status_code = sc,
                        test_url = VALIDATION_URL\<rparr>
                else None))"

text \<open>
  The world of one sweep: \<open>probes sw i\<close> gives the worlds of the probe of the \<open>i\<close>-th
  candidate, one for each route; \<open>store_clock sw i\<close> is the clock reading inside the
  \<open>store_proxy\<close> call for it.
\<close>

record sweep_world =
  probes :: "nat \<Rightarrow> string option \<Rightarrow> probe_world"
  store_clock :: "nat \<Rightarrow> timestamp"

text \<open>
  \<^verbatim>\<open>validate_and_store_all\<close> (lines 149-155). \<^verbatim>\<open>executor.map\<close> yields the results
  in the order of \<^verbatim>\<open>proxies\<close>, and the calling thread stores them one after the other.
\<close>

fun store_results :: "nat \<Rightarrow> (nat \<Rightarrow> timestamp) \<Rightarrow> 'h proxy_doc option list \<Rightarrow> 'h store \<Rightarrow> error + 'h store" where
  "store_results i clock [] s = Inr s"
| "store_results i clock (None # rs) s = store_results (Suc i) clock rs s"
| "store_results i clock (Some proxy_doc # rs) s =
     (case store_proxy (clock i) proxy_doc s of
        Inl e \<Rightarrow> Inl e
      | Inr s' \<Rightarrow> store_results (Suc i) clock rs s')"

definition validate_and_store_all ::
    "('h \<Rightarrow> string) \<Rightarrow> sweep_world \<Rightarrow> ('h \<times> int \<times> string) list \<Rightarrow> 'h store \<Rightarrow> error + 'h store" where
  "validate_and_store_all str_host sw proxies s =
     store_results 0 (store_clock sw)
       (map (\<lambda>(i, p). validate_proxy str_host (probes sw i) p) (enumerate 0 proxies)) s"

text \<open>The successive sweeps of the scheduler loops, each over the candidates harvested
  for it.\<close>

fun sweeps ::
    "('h \<Rightarrow> string) \<Rightarrow> (sweep_world \<times> ('h \<times> int \<times> string) list) list \<Rightarrow> 'h store \<Rightarrow> error + 'h store" where
  "sweeps str_host [] s = Inr s"
| "sweeps str_host ((sw, proxies) # cs) s =
     (case validate_and_store_all str_host sw proxies s of
        Inl e \<Rightarrow> Inl e
      | Inr s' \<Rightarrow> sweeps str_host cs s')"

section \<open>Endpoint test\<close>

text \<open>
  The dictionary \<^verbatim>\<open>test_proxy_against_endpoint\<close> returns (lines 179-198). A key that one
  of the two shapes lacks is an \<open>option\<close> field; the fields carry the prefix \<open>r_\<close>.
\<close>

record endpoint_result =
  r_proxy :: string
  r_protocol :: string
  r_status_code :: "int option"
  r_response_time :: "seconds option"
  r_error :: "string option"
  r_success :: bool
  r_endpoint :: string
  r_timestamp :: timestamp

text \<open>
  \<^verbatim>\<open>test_proxy_against_endpoint\<close> (lines 157-198). \<open>str_host\<close> is how the f-string
  formats the stored host (the identity on a string). \<open>w\<close> is the world of the GET by
  the route that \<^verbatim>\<open>requests\<close> gives it.
\<close>

definition test_proxy_against_endpoint ::
    "('h \<Rightarrow> string) \<Rightarrow> probe_world \<Rightarrow> 'h proxy_doc \<Rightarrow> string \<Rightarrow> endpoint_result" where
  "test_proxy_against_endpoint str_host w proxy_doc endpoint_url =
     (case attempts w 0 of
        Response sc \<Rightarrow>
          \<lparr>r_proxy = str_host (ip proxy_doc) @ '':'' @ py_str_int (port proxy_doc),
           r_protocol = protocol proxy_doc,
           r_status_code = Some sc,
           r_response_time = Some (py_round3 (t_end w - t_start w)),
           r_error = None,
           r_success = (sc = 200),
           r_endpoint = endpoint_url,
           r_timestamp = utc_now w\<rparr>
      | Raised e \<Rightarrow>
          \<lparr>r_proxy = str_host (ip proxy_doc) @ '':'' @ py_str_int (port proxy_doc),
           r_protocol = protocol proxy_doc,
           r_status_code = None,
           r_response_time = None,
           r_error = Some e,
           r_success = False,
           r_endpoint = endpoint_url,
           r_timestamp = utc_now w\<rparr>)"

text \<open>
  \<^verbatim>\<open>test_all_proxies_against_endpoint\<close> (lines 200-241), the list it returns.
  \<open>tw i\<close> is the world of the probe of the \<open>i\<close>-th working row. Every result is a
  dictionary with keys, so the test \<^verbatim>\<open>if result\<close> of line 225 holds for each.
\<close>

definition test_all_proxies_against_endpoint ::
    "('h \<Rightarrow> string) \<Rightarrow> (nat \<Rightarrow> probe_world) \<Rightarrow> 'h store \<Rightarrow> string \<Rightarrow> endpoint_result list" where
  "test_all_proxies_against_endpoint str_host tw s endpoint_url =
     (let working_proxies = find_working s
      in if working_proxies = [] then []
         else map (\<lambda>(i, proxy). test_proxy_against_endpoint str_host (tw i) proxy endpoint_url)
                (enumerate 0 working_proxies))"

section \<open>Source payloads\<close>

text \<open>
  The value \<^verbatim>\<open>resp.json()\<close> returns. An object is the list of its items, one per key
  (a Python \<^verbatim>\<open>dict\<close> has no key twice). A float is a rational: \<^verbatim>\<open>nan\<close> and the
  infinities are left out.
\<close>

datatype json =
    JNull
  | JBool bool
  | JInt int
  | JFloat rat
  | JStr string
  | JArr "json list"
  | JObj "(string \<times> json) list"

text \<open>A candidate: the tuple \<^verbatim>\<open>(ip, port, proto)\<close> that \<^verbatim>\<open>harvest_source\<close> appends.\<close>

type_synonym candidate = "json \<times> int \<times> string"

text \<open>\<^verbatim>\<open>not raw\<close>.\<close>

fun py_falsy :: "json \<Rightarrow> bool" where
  "py_falsy JNull = True"
| "py_falsy (JBool b) = (\<not> b)"
| "py_falsy (JInt n) = (n = 0)"
| "py_falsy (JFloat q) = (q = 0)"
| "py_falsy (JStr s) = (s = [])"
| "py_falsy (JArr xs) = (xs = [])"
| "py_falsy (JObj kv) = (kv = [])"

text \<open>\<^verbatim>\<open>isinstance(raw, dict)\<close>.\<close>

fun is_dict :: "json \<Rightarrow> bool" where
  "is_dict (JObj kv) = True"
| "is_dict _ = False"

text \<open>\<^verbatim>\<open>d.get(k, default)\<close>.\<close>

definition dict_get :: "(string \<times> json) list \<Rightarrow> string \<Rightarrow> json \<Rightarrow> json" where
  "dict_get kv k dflt = (case map_of kv k of None \<Rightarrow> dflt | Some v \<Rightarrow> v)"

text \<open>The first exception of a loop ends it; otherwise the loop gives every result.\<close>

fun collect :: "(error + 'a) list \<Rightarrow> error + 'a list" where
  "collect [] = Inr []"
| "collect (Inl e # xs) = Inl e"
| "collect (Inr x # xs) = (case collect xs of Inl e \<Rightarrow> Inl e | Inr ys \<Rightarrow> Inr (x # ys))"

text \<open>\<^verbatim>\<open>for x in v\<close>: the elements of a list, the keys of a dict, the characters of a
  string; anything else is not iterable.\<close>

fun py_iter :: "json \<Rightarrow> error + json list" where
  "py_iter (JArr xs) = Inr xs"
| "py_iter (JObj kv) = Inr (map (\<lambda>(k, v). JStr k) kv)"
| "py_iter (JStr s) = Inr (map (\<lambda>c. JStr [c]) s)"
| "py_iter _ = Inl TypeError"

subsection \<open>Characters\<close>

text \<open>The decimal digits that \<^verbatim>\<open>\d\<close> matches among the code points below 256.\<close>

definition is_digit :: "char \<Rightarrow> bool" where
  "is_digit c = (c \<in> set ''0123456789'')"

definition digit_val :: "char \<Rightarrow> int" where
  "digit_val c = int (of_char c) - 48"

text \<open>The white space that \<^verbatim>\<open>int\<close> strips, among the code points below 256.\<close>

definition is_space :: "char \<Rightarrow> bool" where
  "is_space c = ((of_char c :: nat) \<in> {9, 10, 11, 12, 13, 32, 133, 160})"

text \<open>\<^verbatim>\<open>str.lower\<close> on one code point below 256.\<close>

definition lower_char :: "char \<Rightarrow> char" where
  "lower_char c =
     (let n = (of_char c :: nat)
      in if (65 \<le> n \<and> n \<le> 90) \<or> (192 \<le> n \<and> n \<le> 222 \<and> n \<noteq> 215) then char_of (n + 32) else c)"

text \<open>\<^verbatim>\<open>proto.lower()\<close>: only a string has the method.\<close>

fun py_lower :: "json \<Rightarrow> error + string" where
  "py_lower (JStr s) = Inr (map lower_char s)"
| "py_lower _ = Inl AttributeError"

text \<open>\<^verbatim>\<open>needle in hay\<close> for two strings.\<close>

fun contains :: "string \<Rightarrow> string \<Rightarrow> bool" where
  "contains needle [] = (needle = [])"
| "contains needle (h # hs) = (prefix needle (h # hs) \<or> contains needle hs)"

text \<open>\<^verbatim>\<open>s.split(sep)\<close> for a separator of one character.\<close>

fun split_on :: "char \<Rightarrow> string \<Rightarrow> string list" where
  "split_on sep [] = [[]]"
| "split_on sep (c # cs) =
     (if c = sep then [] # split_on sep cs
      else (case split_on sep cs of [] \<Rightarrow> [[c]] | w # ws \<Rightarrow> (c # w) # ws))"

subsection \<open>The conversion \<^verbatim>\<open>int(v)\<close>\<close>

definition dec_val :: "string \<Rightarrow> int" where
  "dec_val ds = foldl (\<lambda>a c. 10 * a + digit_val c) 0 ds"

definition strip :: "string \<Rightarrow> string" where
  "strip s = rev (dropWhile is_space (rev (dropWhile is_space s)))"

text \<open>
  \<^verbatim>\<open>int(s)\<close> for a string: white space around, an optional sign, then decimal digits,
  where single underscores may stand between digits. (The limit on the number of digits
  of Python 3.11 is not modelled.)
\<close>

definition py_int_str :: "string \<Rightarrow> error + int" where
  "py_int_str s =
     (let t = strip s;
          neg = (t \<noteq> [] \<and> hd t = CHR ''-'');
          body = (if t \<noteq> [] \<and> (hd t = CHR ''-'' \<or> hd t = CHR ''+'') then tl t else t);
          groups = split_on CHR ''_'' body
      in if list_all (\<lambda>g. g \<noteq> [] \<and> list_all is_digit g) groups
         then Inr ((if neg then - 1 else 1) * dec_val (concat groups))
         else Inl ValueError)"

fun py_int :: "json \<Rightarrow> error + int" where
  "py_int (JInt n) = Inr n"
| "py_int (JBool b) = Inr (if b then 1 else 0)"
| "py_int (JFloat q) = Inr (if 0 \<le> q then \<lfloor>q\<rfloor> else \<lceil>q\<rceil>)"
| "py_int (JStr s) = py_int_str s"
| "py_int _ = Inl TypeError"

subsection \<open>The regular expression\<close>

text \<open>
  The fragment of \<^verbatim>\<open>re\<close> that line 46 uses: \<^verbatim>\<open>\d\<close>, a literal character,
  concatenation, and the greedy bounded repetition \<^verbatim>\<open>r{m,n}\<close>.
\<close>

datatype regex = Digit | Lit char | Seq regex regex | Rep nat nat regex

text \<open>
  The backtracking matcher: \<open>matchr r s\<close> lists what is left of \<open>s\<close> after each way
  of matching \<open>r\<close> at its start, in the order in which the engine tries them (a greedy
  repetition tries one more round before it stops). The engine takes the first.
\<close>

fun weight :: "regex \<Rightarrow> nat" where
  "weight Digit = 1"
| "weight (Lit a) = 1"
| "weight (Seq r1 r2) = Suc (weight r1 + weight r2)"
| "weight (Rep m n r) = Suc (n + weight r)"

function (sequential) matchr :: "regex \<Rightarrow> string \<Rightarrow> string list" where
  "matchr Digit s = (case s of [] \<Rightarrow> [] | c # cs \<Rightarrow> if is_digit c then [cs] else [])"
| "matchr (Lit a) s = (case s of [] \<Rightarrow> [] | c # cs \<Rightarrow> if c = a then [cs] else [])"
| "matchr (Seq r1 r2) s = concat (map (matchr r2) (matchr r1 s))"
| "matchr (Rep m 0 r) s = (if m = 0 then [s] else [])"
| "matchr (Rep m (Suc n) r) s =
     concat (map (matchr (Rep (m - 1) n r)) (matchr r s)) @ (if m = 0 then [s] else [])"
  by pat_completeness auto
termination
  by (relation "measure (\<lambda>(r, s). weight r)") auto

text \<open>The characters that a match of \<open>r\<close> can be made of.\<close>

fun chars :: "regex \<Rightarrow> char set" where
  "chars Digit = {c. is_digit c}"
| "chars (Lit a) = {a}"
| "chars (Seq r1 r2) = chars r1 \<union> chars r2"
| "chars (Rep m n r) = chars r"

text \<open>
  \<^verbatim>\<open>pattern.findall(s)\<close>: scan from the left; at a match, take its text and go on
  behind it; otherwise move one character. (An empty match is taken and the scan moves
  one character; the pattern of line 46 has none.)
\<close>

fun findall :: "regex \<Rightarrow> string \<Rightarrow> string list" where
  "findall r [] = (case matchr r [] of [] \<Rightarrow> [] | rest # _ \<Rightarrow> [[]])"
| "findall r (c # cs) =
     (case matchr r (c # cs) of
        [] \<Rightarrow> findall r cs
      | rest # _ \<Rightarrow>
          if length rest < length (c # cs)
          then take (length (c # cs) - length rest) (c # cs) # findall r rest
          else [] # findall r cs)"

text \<open>One to three decimal digits.\<close>

abbreviation octet :: "string \<Rightarrow> bool" where
  "octet d \<equiv> 1 \<le> length d \<and> length d \<le> 3 \<and> list_all is_digit d"

text \<open>Line 46: \<^verbatim>\<open>(?:\d{1,3}\.){3}\d{1,3}:\d{2,5}\<close>.\<close>

definition IP_PORT_REGEX :: regex where
  "IP_PORT_REGEX =
     Seq (Rep 3 3 (Seq (Rep 1 3 Digit) (Lit CHR ''.'')))
       (Seq (Rep 1 3 Digit) (Seq (Lit CHR '':'') (Rep 2 5 Digit)))"

section \<open>Harvesting\<close>

text \<open>Lines 34-44, in the order of the dictionary.\<close>

definition SOURCES :: "(string \<times> string) list" where
  "SOURCES =
     [(''proxyscrape_http'', ''https://api.proxyscrape.com/v2/?request=getproxies&protocol=http&format=text&timeout=10000''),
      (''proxyscrape_socks4'', ''https://api.proxyscrape.com/v2/?request=getproxies&protocol=socks4&format=text&timeout=10000''),
      (''proxyscrape_socks5'', ''https://api.proxyscrape.com/v2/?request=getproxies&protocol=socks5&format=text&timeout=10000''),
      (''the_speedx_http'', ''https://raw.githubusercontent.com/TheSpeedX/PROXY-List/master/http.txt''),
      (''the_speedx_socks4'', ''https://raw.githubusercontent.com/TheSpeedX/PROXY-List/master/socks4.txt''),
      (''the_speedx_socks5'', ''https://raw.githubusercontent.com/TheSpeedX/PROXY-List/master/socks5.txt''),
      (''openproxylist_http'', ''https://openproxylist.xyz/http.txt''),
      (''proxylist_download_http'', ''https://www.proxy-list.download/api/v1/get?type=http''),
      (''geonode'', ''https://proxylist.geonode.com/api/proxy-list?limit=500&page=1&sort_by=lastChecked&sort_type=desc'')]"

text \<open>
  What \<^verbatim>\<open>session.get(url)\<close> does: it raises, or it gives a response with a status, a
  content type, and the two readings of its body (\<open>None\<close> where \<^verbatim>\<open>resp.json()\<close> or
  \<^verbatim>\<open>resp.text()\<close> raises).
\<close>

record http_reply =
  status :: int
  content_type :: string
  json_body :: "json option"
  text_body :: "string option"

datatype fetch_outcome = FetchRaised | Reply http_reply

text \<open>\<^verbatim>\<open>fetch\<close> (lines 62-72); \<open>net url\<close> is what the GET of \<open>url\<close> does.\<close>

definition fetch :: "(string \<Rightarrow> fetch_outcome) \<Rightarrow> string \<Rightarrow> json option" where
  "fetch net url =
     (case net url of
        FetchRaised \<Rightarrow> None
      | Reply resp \<Rightarrow>
          if status resp = 200 then
            (if contains ''json'' (content_type resp) then json_body resp
             else map_option JStr (text_body resp))
          else None)"

text \<open>Line 106.\<close>

definition proto_hint :: "string \<Rightarrow> string" where
  "proto_hint name =
     (if contains ''http'' name then ''http''
      else if contains ''socks5'' name then ''socks5'' else ''socks4'')"

text \<open>Lines 108-109 for one match: the unpacking needs exactly two parts.\<close>

definition parse_ip_port :: "string \<Rightarrow> string \<Rightarrow> error + candidate" where
  "parse_ip_port hint ip_port =
     (case split_on CHR '':'' ip_port of
        [h, p] \<Rightarrow> (case py_int (JStr p) of Inl e \<Rightarrow> Inl e | Inr n \<Rightarrow> Inr (JStr h, n, hint))
      | _ \<Rightarrow> Inl ValueError)"

text \<open>Lines 100-103 for one item of the structured source.\<close>

definition geonode_item :: "json \<Rightarrow> error + candidate list" where
  "geonode_item item =
     (case item of
        JObj kv \<Rightarrow>
          (let h = dict_get kv ''ip'' JNull
           in case py_int (dict_get kv ''port'' (JInt 0)) of
                Inl e \<Rightarrow> Inl e
              | Inr p \<Rightarrow>
                  (case py_iter (dict_get kv ''protocols'' (JArr [])) of
                     Inl e \<Rightarrow> Inl e
                   | Inr protos \<Rightarrow>
                       collect (map (\<lambda>proto. case py_lower proto of
                                        Inl e \<Rightarrow> Inl e
                                      | Inr l \<Rightarrow> Inr (h, p, l)) protos)))
      | _ \<Rightarrow> Inl AttributeError)"

text \<open>\<^verbatim>\<open>harvest_source\<close> (lines 91-110).\<close>

definition harvest_source :: "(string \<Rightarrow> fetch_outcome) \<Rightarrow> string \<Rightarrow> string \<Rightarrow> error + candidate list" where
  "harvest_source net name url =
     (case fetch net url of
        None \<Rightarrow> Inr []
      | Some raw \<Rightarrow>
          if py_falsy raw then Inr []
          else if name = ''geonode'' \<and> is_dict raw then
            (case raw of
               JObj kv \<Rightarrow>
                 (case py_iter (dict_get kv ''data'' (JArr [])) of
                    Inl e \<Rightarrow> Inl e
                  | Inr items \<Rightarrow>
                      (case collect (map geonode_item items) of
                         Inl e \<Rightarrow> Inl e
                       | Inr rs \<Rightarrow> Inr (concat rs)))
             | _ \<Rightarrow> Inr [])
          else
            (case raw of
               JStr s \<Rightarrow> collect (map (parse_ip_port (proto_hint name)) (findall IP_PORT_REGEX s))
             | _ \<Rightarrow> Inr []))"

subsection \<open>Merging\<close>

text \<open>
  Python's \<^verbatim>\<open>==\<close> and \<^verbatim>\<open>hash\<close> on the values a host can be: \<^verbatim>\<open>True\<close>, \<^verbatim>\<open>1\<close>
  and \<^verbatim>\<open>1.0\<close> are equal, a number is never equal to a string or to \<^verbatim>\<open>None\<close>.
  \<open>py_key v\<close> is the value that \<open>v\<close> compares as.
\<close>

fun py_key :: "json \<Rightarrow> json" where
  "py_key (JBool b) = JFloat (if b then 1 else 0)"
| "py_key (JInt n) = JFloat (of_int n)"
| "py_key v = v"

text \<open>The identity of a candidate: two tuples are equal for a Python set exactly when
  their identities are equal.\<close>

definition identity :: "candidate \<Rightarrow> candidate" where
  "identity p = (py_key (fst p), fst (snd p), snd (snd p))"

text \<open>A list or a dict cannot be hashed: a tuple that holds one cannot enter a set.\<close>

fun unhashable :: "json \<Rightarrow> bool" where
  "unhashable (JArr xs) = True"
| "unhashable (JObj kv) = True"
| "unhashable _ = False"

text \<open>
  \<^verbatim>\<open>set.add\<close> and the set comprehension of line 87. Python leaves the order of
  \<^verbatim>\<open>list(unique_proxies)\<close> open; the model lists the elements by first occurrence.
\<close>

definition set_add :: "candidate list \<Rightarrow> candidate \<Rightarrow> candidate list" where
  "set_add acc p = (if identity p \<in> set (map identity acc) then acc else acc @ [p])"

definition py_set :: "candidate list \<Rightarrow> candidate list" where
  "py_set ps = foldl set_add [] ps"

text \<open>Lines 83-89 of \<^verbatim>\<open>harvest_all\<close>, from the gathered results on.\<close>

definition merge_unique :: "candidate list list \<Rightarrow> error + candidate list" where
  "merge_unique results =
     (let proxies = concat (filter (\<lambda>r. r \<noteq> []) results)
      in if list_ex (\<lambda>p. unhashable (fst p)) proxies then Inl TypeError
         else Inr (py_set proxies))"

text \<open>
  \<^verbatim>\<open>harvest_all\<close> (lines 74-89). \<^verbatim>\<open>asyncio.gather\<close> without
  \<^verbatim>\<open>return_exceptions\<close> passes the exception of a task on to the caller.
\<close>

definition harvest_all :: "(string \<Rightarrow> fetch_outcome) \<Rightarrow> error + candidate list" where
  "harvest_all net =
     (case collect (map (\<lambda>(name, url). harvest_source net name url) SOURCES) of
        Inl e \<Rightarrow> Inl e
      | Inr results \<Rightarrow> merge_unique results)"

section \<open>Properties of the store\<close>

lemma update_one_length: "length (update_one k lc rt s) = length s"
  by (induction s) auto

lemma update_one_keys: "map key (update_one k lc rt s) = map key s"
  by (induction s) (auto simp: key_def)

lemma update_one_working: "map is_working (update_one k lc rt s) = map is_working s"
  by (induction s) auto

lemma update_one_first:
  "k \<in> set (map key s) \<Longrightarrow>
   \<exists>i < length s. key (s ! i) = k \<and> (\<forall>j < i. key (s ! j) \<noteq> k) \<and>
     update_one k lc rt s = s[i := (s ! i)\<lparr>last_checked := lc, response_time := rt\<rparr>]"
proof (induction s)
  case Nil
  then show ?case by simp
next
  case (Cons r rs)
  show ?case
  proof (cases "key r = k")
    case True
    then have "key ((r # rs) ! 0) = k \<and> (\<forall>j < (0::nat). key ((r # rs) ! j) \<noteq> k) \<and>
        update_one k lc rt (r # rs) =
          (r # rs)[0 := ((r # rs) ! 0)\<lparr>last_checked := lc, response_time := rt\<rparr>]"
      by simp
    then show ?thesis by blast
  next
    case False
    with Cons.prems have "k \<in> set (map key rs)" by auto
    from Cons.IH [OF this] obtain i where i: "i < length rs" "key (rs ! i) = k"
      "\<forall>j < i. key (rs ! j) \<noteq> k"
      "update_one k lc rt rs = rs[i := (rs ! i)\<lparr>last_checked := lc, response_time := rt\<rparr>]"
      by blast
    have "\<forall>j < Suc i. key ((r # rs) ! j) \<noteq> k"
    proof (intro allI impI)
      fix j assume "j < Suc i"
      then show "key ((r # rs) ! j) \<noteq> k"
        using False i(3) by (cases j) auto
    qed
    with i False have "Suc i < length (r # rs) \<and> key ((r # rs) ! Suc i) = k \<and>
        (\<forall>j < Suc i. key ((r # rs) ! j) \<noteq> k) \<and>
        update_one k lc rt (r # rs) =
          (r # rs)[Suc i := ((r # rs) ! Suc i)\<lparr>last_checked := lc, response_time := rt\<rparr>]"
      by simp
    then show ?thesis by blast
  qed
qed

lemma store_proxy_fresh:
  "key d \<notin> set (map key s) \<Longrightarrow> store_proxy now d s = Inr (s @ [d])"
  by (simp add: store_proxy_def insert_one_def)

lemma store_proxy_dup:
  "key d \<in> set (map key s) \<Longrightarrow>
   store_proxy now d s = Inr (update_one (key d) now (response_time d) s)"
  by (simp add: store_proxy_def insert_one_def)

lemma store_proxy_total: "\<exists>s'. store_proxy now d s = Inr s'"
  by (cases "key d \<in> set (map key s)") (simp_all add: store_proxy_fresh store_proxy_dup)

lemma store_proxy_unique:
  "unique_index s \<Longrightarrow> store_proxy now d s = Inr s' \<Longrightarrow> unique_index s'"
  by (cases "key d \<in> set (map key s)")
     (auto simp: store_proxy_fresh store_proxy_dup unique_index_def update_one_keys)

lemma filter_key_unique:
  "distinct (map key s) \<Longrightarrow> k \<in> set (map key s) \<Longrightarrow> \<exists>r. filter (\<lambda>x. key x = k) s = [r]"
proof (induction s)
  case Nil
  then show ?case by simp
next
  case (Cons a s)
  show ?case
  proof (cases "key a = k")
    case True
    with Cons.prems have "k \<notin> set (map key s)" by auto
    then have "filter (\<lambda>x. key x = k) s = []"
      by (auto simp: filter_empty_conv)
    with True show ?thesis by simp
  next
    case False
    with Cons show ?thesis by auto
  qed
qed

lemma filter_key_update_one:
  "filter (\<lambda>x. key x = k) (update_one k lc rt s) =
     (case filter (\<lambda>x. key x = k) s of
        [] \<Rightarrow> []
      | r # rs \<Rightarrow> r\<lparr>last_checked := lc, response_time := rt\<rparr> # rs)"
  by (induction s) (auto simp: key_def)

lemma store_proxy_calls_present:
  "unique_index s \<Longrightarrow> k \<in> set (map key s) \<Longrightarrow> calls \<noteq> [] \<Longrightarrow>
   \<forall>c \<in> set calls. key (snd c) = k \<Longrightarrow>
   \<exists>s' r. store_proxy_calls calls s = Inr s' \<and> unique_index s' \<and>
     filter (\<lambda>x. key x = k) s' = [r] \<and>
     response_time r = response_time (snd (last calls)) \<and>
     last_checked r = fst (last calls)"
proof (induction calls arbitrary: s)
  case Nil
  then show ?case by simp
next
  case (Cons c cs)
  obtain now d where c: "c = (now, d)" by (cases c)
  from Cons.prems c have kd: "key d = k" by simp
  let ?s1 = "update_one k now (response_time d) s"
  have step: "store_proxy now d s = Inr ?s1"
    using Cons.prems(2) kd by (simp add: store_proxy_dup)
  have u1: "unique_index ?s1"
    using Cons.prems(1) by (simp add: unique_index_def update_one_keys)
  have k1: "k \<in> set (map key ?s1)"
    using Cons.prems(2) by (simp only: update_one_keys)
  show ?case
  proof (cases "cs = []")
    case True
    from filter_key_unique [of s k] Cons.prems(1,2) obtain r0
      where r0: "filter (\<lambda>x. key x = k) s = [r0]"
      by (auto simp: unique_index_def)
    have "filter (\<lambda>x. key x = k) ?s1 = [r0\<lparr>last_checked := now, response_time := response_time d\<rparr>]"
      by (simp add: filter_key_update_one r0)
    with True c step u1 show ?thesis by simp
  next
    case False
    from Cons.prems(4) have "\<forall>c \<in> set cs. key (snd c) = k" by simp
    from Cons.IH [OF u1 k1 False this] obtain s' r where
      "store_proxy_calls cs ?s1 = Inr s'" "unique_index s'"
      "filter (\<lambda>x. key x = k) s' = [r]"
      "response_time r = response_time (snd (last cs))"
      "last_checked r = fst (last cs)"
      by blast
    with False c step show ?thesis by simp
  qed
qed

text \<open>
  C4. When the insert hits an existing row of the same identity, \<open>store_proxy\<close> returns
  normally (no error reaches the caller) and the new collection is the old one with
  exactly one row changed, the first of that identity, in its \<open>last_checked\<close> and
  \<open>response_time\<close> fields only: every row keeps its \<open>ip\<close>, \<open>port\<close>, \<open>protocol\<close>,
  \<open>is_working\<close>, \<open>status_code\<close> and \<open>test_url\<close>, and every other row is unchanged.
\<close>

theorem store_proxy_duplicate_frame:
  assumes "key d \<in> set (map key s)"
  shows "\<exists>s' i. store_proxy now d s = Inr s' \<and> length s' = length s \<and>
     i < length s \<and> key (s ! i) = key d \<and>
     s' ! i = (s ! i)\<lparr>last_checked := now, response_time := response_time d\<rparr> \<and>
     (\<forall>j < length s. j \<noteq> i \<longrightarrow> s' ! j = s ! j) \<and>
     (\<forall>j < length s. ip (s' ! j) = ip (s ! j) \<and> port (s' ! j) = port (s ! j) \<and>
        protocol (s' ! j) = protocol (s ! j) \<and> is_working (s' ! j) = is_working (s ! j) \<and>
        status_code (s' ! j) = status_code (s ! j) \<and> test_url (s' ! j) = test_url (s ! j))"
proof -
  from update_one_first [OF assms, of now "response_time d"] obtain i where
    i: "i < length s" "key (s ! i) = key d"
    "update_one (key d) now (response_time d) s =
       s[i := (s ! i)\<lparr>last_checked := now, response_time := response_time d\<rparr>]"
    by blast
  let ?s' = "s[i := (s ! i)\<lparr>last_checked := now, response_time := response_time d\<rparr>]"
  have run: "store_proxy now d s = Inr ?s'"
    using assms i(3) by (simp add: store_proxy_dup)
  have frame: "\<forall>j < length s. ip (?s' ! j) = ip (s ! j) \<and> port (?s' ! j) = port (s ! j) \<and>
        protocol (?s' ! j) = protocol (s ! j) \<and> is_working (?s' ! j) = is_working (s ! j) \<and>
        status_code (?s' ! j) = status_code (s ! j) \<and> test_url (?s' ! j) = test_url (s ! j)"
    using i(1) by (simp add: nth_list_update)
  have others: "\<forall>j < length s. j \<noteq> i \<longrightarrow> ?s' ! j = s ! j"
    by simp
  have here: "?s' ! i = (s ! i)\<lparr>last_checked := now, response_time := response_time d\<rparr>"
    using i(1) by simp
  from run i(1,2) here others frame show ?thesis
    by (intro exI [of _ ?s'] exI [of _ i]) simp
qed

theorem store_proxy_duplicate_frame_witness:
  "key \<lparr>ip = ''1.2.3.4'', port = 80, protocol = ''http'', is_working = True,
        response_time = 1/4, last_checked = 20, status_code = 200, test_url = ''http://httpbin.org/ip''\<rparr>
     \<in> set (map key [\<lparr>ip = ''1.2.3.4'', port = 80, protocol = ''http'', is_working = True,
        response_time = 1/2, last_checked = 10, status_code = 200, test_url = ''http://httpbin.org/ip''\<rparr>])
   \<and> store_proxy 25
       \<lparr>ip = ''1.2.3.4'', port = 80, protocol = ''http'', is_working = True,
        response_time = 1/4, last_checked = 20, status_code = 200, test_url = ''http://httpbin.org/ip''\<rparr>
       [\<lparr>ip = ''1.2.3.4'', port = 80, protocol = ''http'', is_working = True,
        response_time = 1/2, last_checked = 10, status_code = 200, test_url = ''http://httpbin.org/ip''\<rparr>]
     = Inr [\<lparr>ip = ''1.2.3.4'', port = 80, protocol = ''http'', is_working = True,
        response_time = 1/4, last_checked = 25, status_code = 200, test_url = ''http://httpbin.org/ip''\<rparr>]"
  using store_proxy_duplicate_frame
    [of "\<lparr>ip = ''1.2.3.4'', port = 80, protocol = ''http'', is_working = True,
        response_time = 1/4, last_checked = 20, status_code = 200, test_url = ''http://httpbin.org/ip''\<rparr>"
        "[\<lparr>ip = ''1.2.3.4'', port = 80, protocol = ''http'', is_working = True,
        response_time = 1/2, last_checked = 10, status_code = 200, test_url = ''http://httpbin.org/ip''\<rparr>]"
        25]
  by (simp add: key_def store_proxy_def insert_one_def)

text \<open>
  C1, as the code has it. For a collection that satisfies the unique index and any
  non-empty series of \<open>store_proxy\<close> calls whose records all have the identity \<open>k\<close>, every
  call returns normally and the collection ends with exactly one row of identity \<open>k\<close>.
  That row's \<open>response_time\<close> is the one carried by the last call's record. Its
  \<open>last_checked\<close> is the clock reading taken inside the last call when that call
  updated an existing row (the identity was stored before, or there was an earlier call),
  and the last record's own \<open>last_checked\<close> only when the single call inserted the row.
\<close>

theorem store_proxy_calls_converge:
  assumes "unique_index s" and "calls \<noteq> []" and "\<forall>c \<in> set calls. key (snd c) = k"
  shows "\<exists>s' r. store_proxy_calls calls s = Inr s' \<and>
     filter (\<lambda>x. key x = k) s' = [r] \<and>
     response_time r = response_time (snd (last calls)) \<and>
     last_checked r =
       (if k \<in> set (map key s) \<or> 1 < length calls then fst (last calls)
        else last_checked (snd (last calls)))"
proof (cases "k \<in> set (map key s)")
  case True
  from store_proxy_calls_present [OF assms(1) True assms(2,3)] True show ?thesis
    by auto
next
  case False
  from assms(2) obtain c cs where calls: "calls = c # cs" by (cases calls) auto
  obtain now d where c: "c = (now, d)" by (cases c)
  from assms(3) calls c have kd: "key d = k" by simp
  have step: "store_proxy now d s = Inr (s @ [d])"
    using False kd by (simp add: store_proxy_fresh)
  have none: "filter (\<lambda>x. key x = k) s = []"
    using False by (auto simp: filter_empty_conv)
  show ?thesis
  proof (cases "cs = []")
    case True
    with calls c step none kd False show ?thesis by simp
  next
    case nonempty: False
    have u1: "unique_index (s @ [d])"
      using assms(1) False kd by (auto simp: unique_index_def)
    have k1: "k \<in> set (map key (s @ [d]))" using kd by simp
    from assms(3) calls have "\<forall>c \<in> set cs. key (snd c) = k" by simp
    from store_proxy_calls_present [OF u1 k1 nonempty this] obtain s' r where
      "store_proxy_calls cs (s @ [d]) = Inr s'"
      "filter (\<lambda>x. key x = k) s' = [r]"
      "response_time r = response_time (snd (last cs))"
      "last_checked r = fst (last cs)"
      by blast
    with calls c step nonempty show ?thesis by auto
  qed
qed

theorem store_proxy_calls_converge_witness:
  "unique_index ([] :: string store) \<and>
   [(15, \<lparr>ip = ''1.2.3.4'', port = 80, protocol = ''http'', is_working = True,
        response_time = 1/2, last_checked = 10, status_code = 200, test_url = ''http://httpbin.org/ip''\<rparr>),
    (25, \<lparr>ip = ''1.2.3.4'', port = 80, protocol = ''http'', is_working = True,
        response_time = 1/4, last_checked = 20, status_code = 200, test_url = ''http://httpbin.org/ip''\<rparr>)]
     \<noteq> [] \<and>
   (\<exists>s' r. store_proxy_calls
     [(15, \<lparr>ip = ''1.2.3.4'', port = 80, protocol = ''http'', is_working = True,
        response_time = 1/2, last_checked = 10, status_code = 200, test_url = ''http://httpbin.org/ip''\<rparr>),
      (25, \<lparr>ip = ''1.2.3.4'', port = 80, protocol = ''http'', is_working = True,
        response_time = 1/4, last_checked = 20, status_code = 200, test_url = ''http://httpbin.org/ip''\<rparr>)]
     [] = Inr s' \<and>
     filter (\<lambda>x. key x = (''1.2.3.4'', 80, ''http'')) s' = [r] \<and>
     response_time r = 1/4 \<and> last_checked r = 25)"
  using store_proxy_calls_converge
    [of "[] :: string store"
        "[(15, \<lparr>ip = ''1.2.3.4'', port = 80, protocol = ''http'', is_working = True,
        response_time = 1/2, last_checked = 10, status_code = 200, test_url = ''http://httpbin.org/ip''\<rparr>),
      (25, \<lparr>ip = ''1.2.3.4'', port = 80, protocol = ''http'', is_working = True,
        response_time = 1/4, last_checked = 20, status_code = 200, test_url = ''http://httpbin.org/ip''\<rparr>)]"
        "(''1.2.3.4'', 80, ''http'')"]
  by (simp add: unique_index_def key_def)

text \<open>
  C1 as stated fails: the second call's record carries \<open>last_checked = 20\<close>, and the row
  ends with the clock reading \<open>25\<close> taken inside \<open>store_proxy\<close>.
\<close>

theorem store_proxy_last_checked_counterexample:
  "store_proxy_calls
     [(15, \<lparr>ip = ''1.2.3.4'', port = 80, protocol = ''http'', is_working = True,
        response_time = 1/2, last_checked = 10, status_code = 200, test_url = ''http://httpbin.org/ip''\<rparr>),
      (25, \<lparr>ip = ''1.2.3.4'', port = 80, protocol = ''http'', is_working = True,
        response_time = 1/4, last_checked = 20, status_code = 200, test_url = ''http://httpbin.org/ip''\<rparr>)]
     []
   = Inr [\<lparr>ip = ''1.2.3.4'', port = 80, protocol = ''http'', is_working = True,
        response_time = 1/4, last_checked = 25, status_code = 200, test_url = ''http://httpbin.org/ip''\<rparr>]
   \<and> last_checked \<lparr>ip = ''1.2.3.4'', port = 80, protocol = ''http'', is_working = True,
        response_time = 1/4, last_checked = 25, status_code = 200, test_url = ''http://httpbin.org/ip''\<rparr>
     \<noteq> last_checked \<lparr>ip = ''1.2.3.4'', port = 80, protocol = ''http'', is_working = True,
        response_time = 1/4, last_checked = 20, status_code = 200, test_url = ''http://httpbin.org/ip''\<rparr>"
  by (simp add: store_proxy_def insert_one_def key_def)
section \<open>Properties of the probes\<close>

lemma validation_target:
  "url_scheme VALIDATION_URL = ''http''" "url_hostname VALIDATION_URL = ''httpbin.org''"
  by (simp_all add: url_scheme_def url_hostname_def VALIDATION_URL_def)

text \<open>
  The mapping of line 120 and the target of line 27. A candidate of protocol \<open>http\<close>
  gives the keys \<open>http\<close> and \<open>https\<close>, and the GET goes through the proxy. Any protocol
  that is none of the four keys of the target gives a mapping that the target never
  asks for, and the GET goes out directly: so it is for \<open>socks4\<close>, \<open>socks5\<close> and
  \<open>https\<close>.
\<close>

lemma select_proxy_http:
  "select_proxy VALIDATION_URL [(''http'', u), (''http'' @ ''s'', u)] = Some u"
  by (simp add: select_proxy_def validation_target)

lemma select_proxy_single:
  "select_proxy VALIDATION_URL [(proto, u)] =
     (if proto \<in> {''http://httpbin.org'', ''http'', ''all://httpbin.org'', ''all''}
      then Some u else None)"
  by (simp add: select_proxy_def validation_target)

lemma select_proxy_https:
  "select_proxy VALIDATION_URL [(''https'', u), (''https'' @ ''s'', u)] = None"
  by (simp add: select_proxy_def validation_target)

text \<open>
  What \<open>validate_proxy\<close> does for every candidate: it returns a record exactly when the
  first GET by the route that the mapping selects returns status 200, and the record
  then holds the candidate's identity, \<open>is_working = True\<close>, the rounded elapsed time,
  the status code, the UTC timestamp and the verification URL. A failure of the first
  GET gives \<open>None\<close> whatever a further GET would do.
\<close>

lemma validate_proxy_selected_route:
  "validate_proxy str_host routes (h, p, proto) =
     (let proxy_url = proto @ ''://'' @ str_host h @ '':'' @ py_str_int p;
          proxies = (if prefix ''http'' proto
                     then [(proto, proxy_url), (proto @ ''s'', proxy_url)]
                     else [(proto, proxy_url)]);
          w = routes (select_proxy VALIDATION_URL proxies)
      in if attempts w 0 = Response 200
         then Some \<lparr>ip = h, port = p, protocol = proto, is_working = True,
                    response_time = py_round3 (t_end w - t_start w),
                    last_checked = utc_now w, status_code = 200,
                    test_url = VALIDATION_URL\<rparr>
         else None)"
  unfolding validate_proxy_def requests_get_def Let_def
  by (simp split: http_outcome.splits)

lemma validate_proxy_http_through_proxy:
  "(\<exists>d. validate_proxy str_host routes (h, p, ''http'') = Some d) =
     (attempts (routes (Some (''http://'' @ str_host h @ '':'' @ py_str_int p))) 0 = Response 200)"
  using select_proxy_http [of "''http://'' @ str_host h @ '':'' @ py_str_int p"]
  by (simp add: validate_proxy_selected_route Let_def)

lemma validate_proxy_socks_direct:
  assumes "proto = ''socks4'' \<or> proto = ''socks5''"
  shows "(\<exists>d. validate_proxy str_host routes (h, p, proto) = Some d) =
     (attempts (routes None) 0 = Response 200)"
proof -
  from assms have "\<not> prefix ''http'' proto"
    and "select_proxy VALIDATION_URL [(proto, u)] = None" for u
    by (auto simp: select_proxy_single)
  then show ?thesis
    by (simp add: validate_proxy_selected_route Let_def)
qed

lemma validate_proxy_https_direct:
  "(\<exists>d. validate_proxy str_host routes (h, p, ''https'') = Some d) =
     (attempts (routes None) 0 = Response 200)"
  using select_proxy_https [of "''https://'' @ str_host h @ '':'' @ py_str_int p"]
  by (simp add: validate_proxy_selected_route Let_def)

lemma port_text: "py_str_int 1080 = ''1080''"
  by (simp add: py_str_int_def digit_char_def)

text \<open>
  C2 at a \<open>socks5\<close> candidate. The mapping of line 120 has the only key \<open>socks5\<close>; the
  target \<^verbatim>\<open>http://httpbin.org/ip\<close> asks for none of it, so the GET is not sent
  through the proxy. Here the proxy refuses every connection and the direct GET returns
  200: \<open>validate_proxy\<close> returns a record with \<open>is_working = True\<close> for a proxy through
  which no GET completes.
\<close>

theorem validate_proxy_socks5_not_through_proxy:
  "select_proxy VALIDATION_URL [(''socks5'', ''socks5://1.2.3.4:1080'')] = None \<and>
   attempts ((\<lambda>route. case route of
        None \<Rightarrow> \<lparr>attempts = (\<lambda>n. Response 200), t_start = 100, t_end = 100 + 1/4, utc_now = 7\<rparr>
      | Some u \<Rightarrow> \<lparr>attempts = (\<lambda>n. Raised ''connection refused''), t_start = 100,
                    t_end = 101, utc_now = 7\<rparr>) (Some ''socks5://1.2.3.4:1080'')) 0
     = Raised ''connection refused'' \<and>
   validate_proxy (\<lambda>h. h)
       (\<lambda>route. case route of
          None \<Rightarrow> \<lparr>attempts = (\<lambda>n. Response 200), t_start = 100, t_end = 100 + 1/4, utc_now = 7\<rparr>
        | Some u \<Rightarrow> \<lparr>attempts = (\<lambda>n. Raised ''connection refused''), t_start = 100,
                      t_end = 101, utc_now = 7\<rparr>)
       (''1.2.3.4'', 1080, ''socks5'')
     = Some \<lparr>ip = ''1.2.3.4'', port = 1080, protocol = ''socks5'', is_working = True,
             response_time = 1/4, last_checked = 7, status_code = 200,
             test_url = VALIDATION_URL\<rparr>"
proof -
  have route: "select_proxy VALIDATION_URL [(''socks5'', ''socks5://1.2.3.4:1080'')] = None"
    by (simp add: select_proxy_single)
  have elapsed: "py_round3 (1/4) = 1/4"
    by (simp add: py_round3_def)
  show ?thesis
    by (simp add: validate_proxy_selected_route Let_def port_text route elapsed)
qed

lemma validate_proxy_working: "validate_proxy str_host routes c = Some d \<Longrightarrow> is_working d"
  by (cases c) (auto simp: validate_proxy_selected_route Let_def split: if_splits)

lemma test_all_length:
  "length (test_all_proxies_against_endpoint str_host tw s endpoint_url) = length (find_working s)"
  by (simp add: test_all_proxies_against_endpoint_def Let_def)

lemma test_all_nth:
  assumes "i < length (find_working s)"
  shows "test_all_proxies_against_endpoint str_host tw s endpoint_url ! i =
     test_proxy_against_endpoint str_host (tw i) (find_working s ! i) endpoint_url"
proof -
  from assms have "find_working s \<noteq> []" by auto
  then have "test_all_proxies_against_endpoint str_host tw s endpoint_url =
      map (\<lambda>(i, proxy). test_proxy_against_endpoint str_host (tw i) proxy endpoint_url)
        (enumerate 0 (find_working s))"
    by (simp add: test_all_proxies_against_endpoint_def Let_def)
  with assms show ?thesis by (simp add: nth_enumerate_eq)
qed

text \<open>
  C3, as the code has it. A probe that raises gives a result with the message as
  \<open>error\<close>, \<open>success = False\<close>, and neither a response time nor a status code. A probe
  that gets a response, of whatever status, gives a result with that status code and the
  rounded elapsed time, \<open>success\<close> true exactly for status 200, and no \<open>error\<close> key.
  The list returned has one result for every working row, the \<open>i\<close>-th for the \<open>i\<close>-th
  row: no attempt is dropped.
\<close>

theorem endpoint_test_results:
  "(attempts w 0 = Raised e \<longrightarrow>
      r_error (test_proxy_against_endpoint str_host w d url) = Some e \<and>
      \<not> r_success (test_proxy_against_endpoint str_host w d url) \<and>
      r_response_time (test_proxy_against_endpoint str_host w d url) = None \<and>
      r_status_code (test_proxy_against_endpoint str_host w d url) = None) \<and>
   (attempts w 0 = Response sc \<longrightarrow>
      r_error (test_proxy_against_endpoint str_host w d url) = None \<and>
      r_success (test_proxy_against_endpoint str_host w d url) = (sc = 200) \<and>
      r_response_time (test_proxy_against_endpoint str_host w d url)
        = Some (py_round3 (t_end w - t_start w)) \<and>
      r_status_code (test_proxy_against_endpoint str_host w d url) = Some sc) \<and>
   length (test_all_proxies_against_endpoint str_host tw s url) = length (find_working s) \<and>
   (\<forall>i < length (find_working s).
      test_all_proxies_against_endpoint str_host tw s url ! i =
        test_proxy_against_endpoint str_host (tw i) (find_working s ! i) url)"
proof -
  have a: "attempts w 0 = Raised e \<longrightarrow>
      r_error (test_proxy_against_endpoint str_host w d url) = Some e \<and>
      \<not> r_success (test_proxy_against_endpoint str_host w d url) \<and>
      r_response_time (test_proxy_against_endpoint str_host w d url) = None \<and>
      r_status_code (test_proxy_against_endpoint str_host w d url) = None"
    by (simp add: test_proxy_against_endpoint_def)
  have b: "attempts w 0 = Response sc \<longrightarrow>
      r_error (test_proxy_against_endpoint str_host w d url) = None \<and>
      r_success (test_proxy_against_endpoint str_host w d url) = (sc = 200) \<and>
      r_response_time (test_proxy_against_endpoint str_host w d url)
        = Some (py_round3 (t_end w - t_start w)) \<and>
      r_status_code (test_proxy_against_endpoint str_host w d url) = Some sc"
    by (simp add: test_proxy_against_endpoint_def)
  from a b test_all_length [of str_host tw s url] test_all_nth [of _ s str_host tw url]
  show ?thesis by blast
qed

theorem endpoint_test_results_witness:
  "attempts \<lparr>attempts = (\<lambda>n. Raised ''timed out''), t_start = 100, t_end = 108, utc_now = 7\<rparr> 0
     = Raised ''timed out'' \<and>
   test_proxy_against_endpoint (\<lambda>h. h)
       \<lparr>attempts = (\<lambda>n. Raised ''timed out''), t_start = 100, t_end = 108, utc_now = 7\<rparr>
       \<lparr>ip = ''1.2.3.4'', port = 8080, protocol = ''http'', is_working = True,
        response_time = 1/2, last_checked = 3, status_code = 200,
        test_url = ''http://httpbin.org/ip''\<rparr>
       ''http://16.171.170.83:3000/''
     = \<lparr>r_proxy = ''1.2.3.4:8080'', r_protocol = ''http'', r_status_code = None,
        r_response_time = None, r_error = Some ''timed out'', r_success = False,
        r_endpoint = ''http://16.171.170.83:3000/'', r_timestamp = 7\<rparr> \<and>
   (0::nat) < length (find_working
       [\<lparr>ip = ''1.2.3.4'', port = 8080, protocol = ''http'', is_working = True,
         response_time = 1/2, last_checked = 3, status_code = 200,
         test_url = ''http://httpbin.org/ip''\<rparr>]) \<and>
   length (test_all_proxies_against_endpoint (\<lambda>h. h)
       (\<lambda>i. \<lparr>attempts = (\<lambda>n. Raised ''timed out''), t_start = 100, t_end = 108, utc_now = 7\<rparr>)
       [\<lparr>ip = ''1.2.3.4'', port = 8080, protocol = ''http'', is_working = True,
         response_time = 1/2, last_checked = 3, status_code = 200,
         test_url = ''http://httpbin.org/ip''\<rparr>]
       ''http://16.171.170.83:3000/'') = 1"
  using endpoint_test_results
    [of "\<lparr>attempts = (\<lambda>n. Raised ''timed out''), t_start = 100, t_end = 108, utc_now = 7\<rparr>"
        "''timed out''" "\<lambda>h. h"
        "\<lparr>ip = ''1.2.3.4'', port = 8080, protocol = ''http'', is_working = True,
          response_time = 1/2, last_checked = 3, status_code = 200,
          test_url = ''http://httpbin.org/ip''\<rparr>"
        "''http://16.171.170.83:3000/''" 0
        "\<lambda>i. \<lparr>attempts = (\<lambda>n. Raised ''timed out''), t_start = 100, t_end = 108, utc_now = 7\<rparr>"
        "[\<lparr>ip = ''1.2.3.4'', port = 8080, protocol = ''http'', is_working = True,
          response_time = 1/2, last_checked = 3, status_code = 200,
          test_url = ''http://httpbin.org/ip''\<rparr>]"]
  by (simp add: test_proxy_against_endpoint_def find_working_def py_str_int_def digit_char_def)

text \<open>
  C3 as stated fails at a response of status 404: the result has no error message and
  it has a response time.
\<close>

theorem endpoint_test_non200_counterexample:
  "test_proxy_against_endpoint (\<lambda>h. h)
       \<lparr>attempts = (\<lambda>n. Response 404), t_start = 100, t_end = 100 + 1/4, utc_now = 7\<rparr>
       \<lparr>ip = ''1.2.3.4'', port = 8080, protocol = ''http'', is_working = True,
        response_time = 1/2, last_checked = 3, status_code = 200,
        test_url = ''http://httpbin.org/ip''\<rparr>
       ''http://16.171.170.83:3000/''
     = \<lparr>r_proxy = ''1.2.3.4:8080'', r_protocol = ''http'', r_status_code = Some 404,
        r_response_time = Some (1/4), r_error = None, r_success = False,
        r_endpoint = ''http://16.171.170.83:3000/'', r_timestamp = 7\<rparr>"
  by (simp add: test_proxy_against_endpoint_def py_round3_def py_str_int_def digit_char_def)

section \<open>Properties of the sweeps\<close>

lemma store_proxy_grows:
  assumes "is_working d"
  shows "\<exists>s' ks. store_proxy now d s = Inr s' \<and> map key s' = map key s @ ks \<and>
     map is_working s' = map is_working s @ replicate (length ks) True"
proof (cases "key d \<in> set (map key s)")
  case True
  then have "store_proxy now d s = Inr (update_one (key d) now (response_time d) s)"
    by (rule store_proxy_dup)
  then show ?thesis
    by (intro exI [of _ "update_one (key d) now (response_time d) s"] exI [of _ "[]"])
       (simp add: update_one_keys update_one_working)
next
  case False
  then have "store_proxy now d s = Inr (s @ [d])"
    by (rule store_proxy_fresh)
  with assms show ?thesis
    by (intro exI [of _ "s @ [d]"] exI [of _ "[key d]"]) simp
qed

lemma store_results_grows:
  "(\<And>d. Some d \<in> set rs \<Longrightarrow> is_working d) \<Longrightarrow>
   \<exists>s' ks. store_results i clock rs s = Inr s' \<and> map key s' = map key s @ ks \<and>
     map is_working s' = map is_working s @ replicate (length ks) True"
proof (induction rs arbitrary: i s)
  case Nil
  show ?case by (intro exI [of _ s] exI [of _ "[]"]) simp
next
  case (Cons r rs)
  have rest: "\<And>d. Some d \<in> set rs \<Longrightarrow> is_working d"
    using Cons.prems by simp
  show ?case
  proof (cases r)
    case None
    with Cons.IH [OF rest, of "Suc i" s] show ?thesis by simp
  next
    case (Some d)
    with Cons.prems have "is_working d" by simp
    from store_proxy_grows [OF this, of "clock i" s] obtain s1 k1 where
      s1: "store_proxy (clock i) d s = Inr s1" "map key s1 = map key s @ k1"
      "map is_working s1 = map is_working s @ replicate (length k1) True"
      by blast
    from Cons.IH [OF rest, of "Suc i" s1] obtain s2 k2 where
      s2: "store_results (Suc i) clock rs s1 = Inr s2" "map key s2 = map key s1 @ k2"
      "map is_working s2 = map is_working s1 @ replicate (length k2) True"
      by blast
    have "store_results i clock (r # rs) s = Inr s2"
      using Some s1(1) s2(1) by simp
    moreover have "map key s2 = map key s @ (k1 @ k2)"
      using s1(2) s2(2) by simp
    moreover have "map is_working s2 = map is_working s @ replicate (length (k1 @ k2)) True"
      using s1(3) s2(3) by (simp add: replicate_add)
    ultimately show ?thesis by blast
  qed
qed

lemma validate_and_store_all_grows:
  "\<exists>s' ks. validate_and_store_all str_host sw proxies s = Inr s' \<and> map key s' = map key s @ ks \<and>
     map is_working s' = map is_working s @ replicate (length ks) True"
  unfolding validate_and_store_all_def
  by (rule store_results_grows) (auto intro: validate_proxy_working [OF sym])

lemma sweeps_grows:
  "\<exists>s' ks. sweeps str_host cs s = Inr s' \<and> map key s' = map key s @ ks \<and>
     map is_working s' = map is_working s @ replicate (length ks) True"
proof (induction cs arbitrary: s)
  case Nil
  show ?case by (intro exI [of _ s] exI [of _ "[]"]) simp
next
  case (Cons c cs)
  obtain sw proxies where c: "c = (sw, proxies)" by (cases c)
  from validate_and_store_all_grows [of str_host sw proxies s] obtain s1 k1 where
    s1: "validate_and_store_all str_host sw proxies s = Inr s1" "map key s1 = map key s @ k1"
    "map is_working s1 = map is_working s @ replicate (length k1) True"
    by blast
  from Cons.IH [of s1] obtain s2 k2 where
    s2: "sweeps str_host cs s1 = Inr s2" "map key s2 = map key s1 @ k2"
    "map is_working s2 = map is_working s1 @ replicate (length k2) True"
    by blast
  have "sweeps str_host (c # cs) s = Inr s2"
    using c s1(1) s2(1) by simp
  moreover have "map key s2 = map key s @ (k1 @ k2)"
    using s1(2) s2(2) by simp
  moreover have "map is_working s2 = map is_working s @ replicate (length (k1 @ k2)) True"
    using s1(3) s2(3) by (simp add: replicate_add)
  ultimately show ?case by blast
qed

lemma working_kept:
  assumes k: "map key s' = map key s @ ks"
    and w: "map is_working s' = map is_working s @ bs"
    and r: "r \<in> set (find_working s)"
  shows "\<exists>r' \<in> set (find_working s'). key r' = key r"
proof -
  from r have "r \<in> set s" "is_working r" by (simp_all add: find_working_def)
  then obtain i where i: "i < length s" "s ! i = r" by (auto simp: in_set_conv_nth)
  have len: "length s' = length s + length ks"
    using arg_cong [OF k, of length] by simp
  with i have i': "i < length s'" by simp
  have "key (s' ! i) = map key s' ! i" using i' by simp
  also have "\<dots> = map key s ! i" using i(1) by (simp add: k nth_append)
  finally have kk: "key (s' ! i) = key r" using i by simp
  have "is_working (s' ! i) = map is_working s' ! i" using i' by simp
  also have "\<dots> = map is_working s ! i" using i(1) by (simp add: w nth_append)
  finally have "is_working (s' ! i)" using i \<open>is_working r\<close> by simp
  with i' have "s' ! i \<in> set (find_working s')" by (simp add: find_working_def)
  with kk show ?thesis by blast
qed

text \<open>
  C10. Any series of sweeps, over any candidates and whatever the probes do, returns
  normally, and the collection it leaves has the rows of the old one in place, each
  with its identity and its \<open>is_working\<close> flag, followed by new rows that are all
  working. So a row that \<open>find_working\<close> returned before is returned after.
  The endpoint test is a function of the collection that returns only its results:
  it writes nothing.
\<close>

theorem sweeps_keep_working:
  "\<exists>s' ks. sweeps str_host cs s = Inr s' \<and> map key s' = map key s @ ks \<and>
     map is_working s' = map is_working s @ replicate (length ks) True \<and>
     (\<forall>r \<in> set (find_working s). \<exists>r' \<in> set (find_working s'). key r' = key r)"
proof -
  from sweeps_grows [of str_host cs s] obtain s' ks where
    g: "sweeps str_host cs s = Inr s'" "map key s' = map key s @ ks"
    "map is_working s' = map is_working s @ replicate (length ks) True"
    by blast
  have "\<forall>r \<in> set (find_working s). \<exists>r' \<in> set (find_working s'). key r' = key r"
    using working_kept [OF g(2,3)] by blast
  with g show ?thesis by blast
qed

theorem sweeps_keep_working_witness:
  "\<exists>s' ks.
     sweeps (\<lambda>h. h)
       [(\<lparr>probes = (\<lambda>i route. \<lparr>attempts = (\<lambda>n. Raised ''timed out''), t_start = 100,
                                 t_end = 108, utc_now = 7\<rparr>),
          store_clock = (\<lambda>i. 9)\<rparr>,
         [(''1.2.3.4'', 8080, ''http'')])]
       [\<lparr>ip = ''1.2.3.4'', port = 8080, protocol = ''http'', is_working = True,
         response_time = 1/2, last_checked = 3, status_code = 200,
         test_url = ''http://httpbin.org/ip''\<rparr>] = Inr s' \<and>
     map key s' = [(''1.2.3.4'', 8080, ''http'')] @ ks \<and>
     map is_working s' = [True] @ replicate (length ks) True \<and>
     \<lparr>ip = ''1.2.3.4'', port = 8080, protocol = ''http'', is_working = True,
       response_time = 1/2, last_checked = 3, status_code = 200,
       test_url = ''http://httpbin.org/ip''\<rparr> \<in> set (find_working s')"
  using sweeps_keep_working
    [of "\<lambda>h. h"
        "[(\<lparr>probes = (\<lambda>i route. \<lparr>attempts = (\<lambda>n. Raised ''timed out''), t_start = 100,
                                 t_end = 108, utc_now = 7\<rparr>),
          store_clock = (\<lambda>i. 9)\<rparr>,
         [(''1.2.3.4'', 8080, ''http'')])]"
        "[\<lparr>ip = ''1.2.3.4'', port = 8080, protocol = ''http'', is_working = True,
         response_time = 1/2, last_checked = 3, status_code = 200,
         test_url = ''http://httpbin.org/ip''\<rparr>]"]
  by (simp add: validate_and_store_all_def validate_proxy_selected_route Let_def
      find_working_def key_def)

section \<open>Properties of the parser\<close>

lemma matchr_Seq_iff:
  "rest \<in> set (matchr (Seq r1 r2) s) \<longleftrightarrow> (\<exists>mid \<in> set (matchr r1 s). rest \<in> set (matchr r2 mid))"
  by auto

lemma matchr_consumes:
  "rest \<in> set (matchr r s) \<Longrightarrow> \<exists>a. s = a @ rest \<and> set a \<subseteq> chars r"
proof (induction r s arbitrary: rest rule: matchr.induct)
  case (1 s)
  then show ?case by (cases s) (auto split: if_splits)
next
  case (2 a s)
  then show ?case by (cases s) (auto split: if_splits)
next
  case (3 r1 r2 s)
  from "3.prems" obtain mid where mid: "mid \<in> set (matchr r1 s)" "rest \<in> set (matchr r2 mid)"
    by auto
  from "3.IH"(1) [OF mid(1)] obtain a where a: "s = a @ mid" "set a \<subseteq> chars r1" by blast
  from "3.IH"(2) [OF mid(1) mid(2)] obtain b where b: "mid = b @ rest" "set b \<subseteq> chars r2" by blast
  from a b have "s = (a @ b) @ rest \<and> set (a @ b) \<subseteq> chars (Seq r1 r2)" by auto
  then show ?case by blast
next
  case (4 m r s)
  then have "s = [] @ rest \<and> set [] \<subseteq> chars (Rep m 0 r)" by (auto split: if_splits)
  then show ?case by blast
next
  case (5 m n r s)
  from "5.prems" consider
    (more) mid where "mid \<in> set (matchr r s)" "rest \<in> set (matchr (Rep (m - 1) n r) mid)"
    | (stop) "m = 0" "rest = s"
    by (auto split: if_splits)
  then show ?case
  proof cases
    case more
    from "5.IH"(1) [OF more(1)] obtain a where a: "s = a @ mid" "set a \<subseteq> chars r" by blast
    from "5.IH"(2) [OF more(1) more(2)] obtain b where
      b: "mid = b @ rest" "set b \<subseteq> chars (Rep (m - 1) n r)" by blast
    from a b have "s = (a @ b) @ rest \<and> set (a @ b) \<subseteq> chars (Rep m (Suc n) r)" by auto
    then show ?thesis by blast
  next
    case stop
    then have "s = [] @ rest \<and> set [] \<subseteq> chars (Rep m (Suc n) r)" by simp
    then show ?thesis by blast
  qed
qed

lemma matchr_digits:
  "rest \<in> set (matchr (Rep m n Digit) s) \<Longrightarrow>
   \<exists>d. s = d @ rest \<and> m \<le> length d \<and> length d \<le> n \<and> list_all is_digit d"
proof (induction n arbitrary: m s)
  case 0
  then have "s = [] @ rest \<and> m \<le> length ([]::string) \<and> length ([]::string) \<le> 0 \<and> list_all is_digit []"
    by (auto split: if_splits)
  then show ?case by blast
next
  case (Suc n)
  from Suc.prems consider
    (more) mid where "mid \<in> set (matchr Digit s)" "rest \<in> set (matchr (Rep (m - 1) n Digit) mid)"
    | (stop) "m = 0" "rest = s"
    by (auto split: if_splits)
  then show ?case
  proof cases
    case more
    from more(1) obtain c where c: "s = c # mid" "is_digit c"
      by (cases s) (auto split: if_splits)
    from Suc.IH [OF more(2)] obtain d where
      d: "mid = d @ rest" "m - 1 \<le> length d" "length d \<le> n" "list_all is_digit d" by blast
    from c d have "s = (c # d) @ rest \<and> m \<le> length (c # d) \<and> length (c # d) \<le> Suc n \<and>
        list_all is_digit (c # d)" by auto
    then show ?thesis by blast
  next
    case stop
    then have "s = [] @ rest \<and> m \<le> length ([]::string) \<and> length ([]::string) \<le> Suc n \<and>
        list_all is_digit []" by simp
    then show ?thesis by blast
  qed
qed

lemma is_digit_not_colon: "is_digit c \<Longrightarrow> c \<noteq> CHR '':''"
  by (auto simp: is_digit_def)

lemma ip_port_match:
  assumes "rest \<in> set (matchr IP_PORT_REGEX s)"
  shows "\<exists>a p. s = a @ CHR '':'' # p @ rest \<and> CHR '':'' \<notin> set a \<and>
     2 \<le> length p \<and> length p \<le> 5 \<and> list_all is_digit p"
proof -
  let ?ip = "Seq (Rep 3 3 (Seq (Rep 1 3 Digit) (Lit CHR ''.''))) (Rep 1 3 Digit)"
  from assms obtain m1 m2 m3 where
    m1: "m1 \<in> set (matchr (Rep 3 3 (Seq (Rep 1 3 Digit) (Lit CHR ''.''))) s)" and
    m2: "m2 \<in> set (matchr (Rep 1 3 Digit) m1)" and
    m3: "m3 \<in> set (matchr (Lit CHR '':'') m2)" and
    m4: "rest \<in> set (matchr (Rep 2 5 Digit) m3)"
    unfolding IP_PORT_REGEX_def matchr_Seq_iff by blast
  from m1 m2 have "m2 \<in> set (matchr ?ip s)" unfolding matchr_Seq_iff by blast
  from matchr_consumes [OF this] obtain a where a: "s = a @ m2" "set a \<subseteq> chars ?ip" by blast
  have "CHR '':'' \<notin> chars ?ip" by (auto simp: is_digit_def)
  with a(2) have nocolon: "CHR '':'' \<notin> set a" by blast
  from m3 have c: "m2 = CHR '':'' # m3" by (cases m2) (auto split: if_splits)
  from matchr_digits [OF m4] obtain p where
    p: "m3 = p @ rest" "2 \<le> length p" "length p \<le> 5" "list_all is_digit p" by blast
  from a c p nocolon show ?thesis by auto
qed

lemma findall_elems:
  "m \<in> set (findall r s) \<Longrightarrow> \<exists>rest. rest \<in> set (matchr r (m @ rest))"
proof (induction r s rule: findall.induct)
  case (1 r)
  show ?case
  proof (cases "matchr r []")
    case Nil
    with 1 show ?thesis by simp
  next
    case (Cons rest xs)
    with 1 have m: "m = []" by simp
    from Cons have "rest \<in> set (matchr r [])" by simp
    from matchr_consumes [OF this] have "rest = []" by auto
    with Cons m have "[] \<in> set (matchr r (m @ []))" by simp
    then show ?thesis by blast
  qed
next
  case (2 r c cs)
  show ?case
  proof (cases "matchr r (c # cs)")
    case Nil
    with 2 show ?thesis by simp
  next
    case (Cons rest xs)
    then have in_m: "rest \<in> set (matchr r (c # cs))" by simp
    from matchr_consumes [OF in_m] obtain a where a: "c # cs = a @ rest" by blast
    show ?thesis
    proof (cases "length rest < length (c # cs)")
      case True
      have tk: "take (length (c # cs) - length rest) (c # cs) = a"
        using a by (metis add_diff_cancel_right' append_eq_conv_conj length_append)
      from "2.prems" Cons True consider "m = a" | "m \<in> set (findall r rest)"
        using tk by auto
      then show ?thesis
      proof cases
        case 1
        with a in_m have "rest \<in> set (matchr r (m @ rest))" by simp
        then show ?thesis by blast
      next
        case 2
        from "2.IH"(2) [OF Cons True this] show ?thesis .
      qed
    next
      case False
      with a have "a = []" by (cases a) (auto dest: arg_cong [of _ _ length])
      with a have rs: "rest = c # cs" by simp
      from "2.prems" Cons False consider "m = []" | "m \<in> set (findall r cs)" by auto
      then show ?thesis
      proof cases
        case 1
        with in_m rs have "rest \<in> set (matchr r (m @ rest))" by simp
        then show ?thesis by blast
      next
        case 2
        from "2.IH"(3) [OF Cons False this] show ?thesis .
      qed
    qed
  qed
qed

lemma split_on_none: "sep \<notin> set a \<Longrightarrow> split_on sep a = [a]"
  by (induction a) auto

lemma split_on_first: "sep \<notin> set a \<Longrightarrow> split_on sep (a @ sep # b) = a # split_on sep b"
  by (induction a) auto

lemma is_digit_facts:
  assumes "is_digit c"
  shows "\<not> is_space c" "c \<noteq> CHR ''-''" "c \<noteq> CHR ''+''" "c \<noteq> CHR ''_''" "c \<noteq> CHR '':''"
    "0 \<le> digit_val c" "digit_val c \<le> 9"
  using assms by (auto simp: is_digit_def is_space_def digit_val_def)

lemma dropWhile_none: "\<forall>x \<in> set xs. \<not> P x \<Longrightarrow> dropWhile P xs = xs"
  by (cases xs) auto

lemma strip_digits: "list_all is_digit p \<Longrightarrow> strip p = p"
  by (simp add: strip_def dropWhile_none list_all_iff is_digit_facts(1))

lemma foldl_digits_bound:
  "list_all is_digit p \<Longrightarrow> 0 \<le> a \<Longrightarrow>
   0 \<le> foldl (\<lambda>a c. 10 * a + digit_val c) a p \<and>
   foldl (\<lambda>a c. 10 * a + digit_val c) a p < (a + 1) * 10 ^ length p"
proof (induction p arbitrary: a)
  case Nil
  then show ?case by simp
next
  case (Cons c cs)
  from Cons.prems have c: "0 \<le> digit_val c" "digit_val c \<le> 9" and cs: "list_all is_digit cs"
    by (simp_all add: is_digit_facts)
  let ?b = "10 * a + digit_val c"
  from c Cons.prems(2) have b0: "0 \<le> ?b" by simp
  from Cons.IH [OF cs b0] have ih: "0 \<le> foldl (\<lambda>a c. 10 * a + digit_val c) ?b cs"
    "foldl (\<lambda>a c. 10 * a + digit_val c) ?b cs < (?b + 1) * 10 ^ length cs" by simp_all
  have "(?b + 1) * 10 ^ length cs \<le> (10 * a + 10) * (10::int) ^ length cs"
    using c(2) by (intro mult_right_mono) simp_all
  also have "\<dots> = (a + 1) * 10 ^ length (c # cs)" by (simp add: algebra_simps)
  finally have le: "(?b + 1) * 10 ^ length cs \<le> (a + 1) * 10 ^ length (c # cs)" .
  from ih(2) le have "foldl (\<lambda>a c. 10 * a + digit_val c) ?b cs < (a + 1) * 10 ^ length (c # cs)"
    by (rule less_le_trans)
  with ih(1) show ?case by simp
qed

lemma dec_val_bound:
  "list_all is_digit p \<Longrightarrow> 0 \<le> dec_val p \<and> dec_val p < 10 ^ length p"
  using foldl_digits_bound [of p 0] by (simp add: dec_val_def)

lemma py_int_str_digits:
  assumes "list_all is_digit p" "p \<noteq> []"
  shows "py_int_str p = Inr (dec_val p)"
proof -
  from assms have hd: "is_digit (hd p)" by (cases p) simp_all
  have nous: "CHR ''_'' \<notin> set p"
    using assms(1) by (auto simp: list_all_iff dest: is_digit_facts(4))
  show ?thesis
    using assms hd is_digit_facts(2,3) [OF hd]
    by (simp add: py_int_str_def strip_digits Let_def split_on_none [OF nous])
qed

lemma parse_ip_port_match:
  assumes "CHR '':'' \<notin> set a" "list_all is_digit p" "p \<noteq> []"
  shows "parse_ip_port hint (a @ CHR '':'' # p) = Inr (JStr a, dec_val p, hint)"
proof -
  have "CHR '':'' \<notin> set p"
    using assms(2) by (auto simp: list_all_iff dest: is_digit_facts(5))
  then have "split_on CHR '':'' (a @ CHR '':'' # p) = [a, p]"
    using assms(1) by (simp add: split_on_first split_on_none)
  then show ?thesis
    using assms(2,3) by (simp add: parse_ip_port_def py_int_str_digits)
qed

lemma collect_all_ok:
  "(\<And>x. x \<in> set xs \<Longrightarrow> \<exists>y. f x = Inr y \<and> P y) \<Longrightarrow>
   \<exists>ys. collect (map f xs) = Inr ys \<and> list_all P ys \<and> length ys = length xs"
proof (induction xs)
  case Nil
  then show ?case by simp
next
  case (Cons x xs)
  from Cons.prems [of x] obtain y where y: "f x = Inr y" "P y" by auto
  from Cons.IH Cons.prems obtain ys where
    "collect (map f xs) = Inr ys" "list_all P ys" "length ys = length xs" by auto
  with y show ?case by simp
qed

lemma findall_ip_port_parse:
  assumes "m \<in> set (findall IP_PORT_REGEX s)"
  shows "\<exists>c. parse_ip_port hint m = Inr c \<and>
     (\<exists>h. fst c = JStr h) \<and> 0 \<le> fst (snd c) \<and> fst (snd c) \<le> 99999 \<and> snd (snd c) = hint"
proof -
  from findall_elems [OF assms] obtain rest where "rest \<in> set (matchr IP_PORT_REGEX (m @ rest))"
    by blast
  from ip_port_match [OF this] obtain a p where
    ap: "m @ rest = a @ CHR '':'' # p @ rest" "CHR '':'' \<notin> set a"
    "2 \<le> length p" "length p \<le> 5" "list_all is_digit p" by blast
  from ap(1) have m: "m = a @ CHR '':'' # p" by simp
  from ap(3) have ne: "p \<noteq> []" by auto
  from dec_val_bound [OF ap(5)] have b: "0 \<le> dec_val p" "dec_val p < 10 ^ length p" by simp_all
  have "(10::int) ^ length p \<le> 10 ^ 5" using ap(4) by (intro power_increasing) simp_all
  with b(2) have "dec_val p \<le> 99999" by simp
  with b(1) m parse_ip_port_match [OF ap(2) ap(5) ne, of hint] show ?thesis by simp
qed

lemma harvest_source_text:
  assumes "fetch net url = Some (JStr s)"
  shows "\<exists>cs. harvest_source net name url = Inr cs \<and>
     list_all (\<lambda>c. (\<exists>h. fst c = JStr h) \<and> 0 \<le> fst (snd c) \<and> fst (snd c) \<le> 99999 \<and>
                   snd (snd c) = proto_hint name) cs"
proof (cases "s = []")
  case True
  with assms show ?thesis by (simp add: harvest_source_def)
next
  case False
  from collect_all_ok [of "findall IP_PORT_REGEX s" "parse_ip_port (proto_hint name)"
      "\<lambda>c. (\<exists>h. fst c = JStr h) \<and> 0 \<le> fst (snd c) \<and> fst (snd c) \<le> 99999 \<and>
                   snd (snd c) = proto_hint name"]
    findall_ip_port_parse [of _ s "proto_hint name"]
  obtain cs where "collect (map (parse_ip_port (proto_hint name)) (findall IP_PORT_REGEX s)) = Inr cs"
    "list_all (\<lambda>c. (\<exists>h. fst c = JStr h) \<and> 0 \<le> fst (snd c) \<and> fst (snd c) \<le> 99999 \<and>
                   snd (snd c) = proto_hint name) cs"
    by blast
  with assms False show ?thesis by (simp add: harvest_source_def)
qed

lemma matchr_Rep3:
  "rest \<in> set (matchr (Rep 3 3 r) s) \<longleftrightarrow>
   (\<exists>m1 \<in> set (matchr r s). \<exists>m2 \<in> set (matchr r m1). rest \<in> set (matchr r m2))"
  by (simp add: numeral_3_eq_3)


lemma matchr_Lit_iff: "rest \<in> set (matchr (Lit a) s) \<longleftrightarrow> s = a # rest"
  by (cases s) auto

lemma octet_dot_sound:
  assumes "rest \<in> set (matchr (Seq (Rep 1 3 Digit) (Lit CHR ''.'')) s)"
  shows "\<exists>d. s = d @ CHR ''.'' # rest \<and> octet d"
proof -
  from assms obtain mid where mid: "mid \<in> set (matchr (Rep 1 3 Digit) s)"
    "rest \<in> set (matchr (Lit CHR ''.'') mid)"
    unfolding matchr_Seq_iff by blast
  from matchr_digits [OF mid(1)] obtain d where
    d: "s = d @ mid" "1 \<le> length d" "length d \<le> 3" "list_all is_digit d" by blast
  from mid(2) have "mid = CHR ''.'' # rest" by (simp add: matchr_Lit_iff)
  with d show ?thesis by blast
qed

lemma ip_port_match_shape:
  assumes "rest \<in> set (matchr IP_PORT_REGEX s)"
  shows "\<exists>d1 d2 d3 d4 p.
     s = d1 @ ''.'' @ d2 @ ''.'' @ d3 @ ''.'' @ d4 @ '':'' @ p @ rest \<and>
     octet d1 \<and> octet d2 \<and> octet d3 \<and> octet d4 \<and>
     2 \<le> length p \<and> length p \<le> 5 \<and> list_all is_digit p"
proof -
  let ?X = "Seq (Rep 1 3 Digit) (Lit CHR ''.'')"
  from assms obtain m3 m4 m5 where
    m3: "m3 \<in> set (matchr (Rep 3 3 ?X) s)" and
    m4: "m4 \<in> set (matchr (Rep 1 3 Digit) m3)" and
    m5: "m5 \<in> set (matchr (Lit CHR '':'') m4)" and
    m6: "rest \<in> set (matchr (Rep 2 5 Digit) m5)"
    unfolding IP_PORT_REGEX_def matchr_Seq_iff by blast
  from m3 obtain m1 m2 where
    m1: "m1 \<in> set (matchr ?X s)" and m2: "m2 \<in> set (matchr ?X m1)"
    and m3': "m3 \<in> set (matchr ?X m2)"
    unfolding matchr_Rep3 by blast
  from octet_dot_sound [OF m1] obtain d1 where d1: "s = d1 @ CHR ''.'' # m1" "octet d1" by blast
  from octet_dot_sound [OF m2] obtain d2 where d2: "m1 = d2 @ CHR ''.'' # m2" "octet d2" by blast
  from octet_dot_sound [OF m3'] obtain d3 where d3: "m2 = d3 @ CHR ''.'' # m3" "octet d3" by blast
  from matchr_digits [OF m4] obtain d4 where d4: "m3 = d4 @ m4" "octet d4" by blast
  from m5 have c: "m4 = CHR '':'' # m5" by (simp add: matchr_Lit_iff)
  from matchr_digits [OF m6] obtain p where
    p: "m5 = p @ rest" "2 \<le> length p" "length p \<le> 5" "list_all is_digit p" by blast
  have "s = d1 @ ''.'' @ d2 @ ''.'' @ d3 @ ''.'' @ d4 @ '':'' @ p @ rest"
    using d1(1) d2(1) d3(1) d4(1) c p(1) by simp
  with d1(2) d2(2) d3(2) d4(2) p(2,3,4) show ?thesis by blast
qed

lemma findall_elems_in_text:
  "m \<in> set (findall r s) \<Longrightarrow> \<exists>pre rest. s = pre @ m @ rest \<and> rest \<in> set (matchr r (m @ rest))"
proof (induction r s rule: findall.induct)
  case (1 r)
  show ?case
  proof (cases "matchr r []")
    case Nil
    with 1 show ?thesis by simp
  next
    case (Cons rest xs)
    with 1 have m: "m = []" by simp
    from Cons have "rest \<in> set (matchr r [])" by simp
    from matchr_consumes [OF this] have "rest = []" by auto
    with Cons m have "[] = [] @ m @ [] \<and> [] \<in> set (matchr r (m @ []))" by simp
    then show ?thesis by blast
  qed
next
  case (2 r c cs)
  show ?case
  proof (cases "matchr r (c # cs)")
    case Nil
    with 2 obtain pre rest where "cs = pre @ m @ rest" "rest \<in> set (matchr r (m @ rest))"
      by auto
    then have "c # cs = (c # pre) @ m @ rest \<and> rest \<in> set (matchr r (m @ rest))" by simp
    then show ?thesis by blast
  next
    case (Cons rest xs)
    then have in_m: "rest \<in> set (matchr r (c # cs))" by simp
    from matchr_consumes [OF in_m] obtain a where a: "c # cs = a @ rest" by blast
    show ?thesis
    proof (cases "length rest < length (c # cs)")
      case True
      have tk: "take (length (c # cs) - length rest) (c # cs) = a"
        using a by (metis add_diff_cancel_right' append_eq_conv_conj length_append)
      from "2.prems" Cons True consider "m = a" | "m \<in> set (findall r rest)"
        using tk by auto
      then show ?thesis
      proof cases
        case 1
        with a in_m have "c # cs = [] @ m @ rest \<and> rest \<in> set (matchr r (m @ rest))" by simp
        then show ?thesis by blast
      next
        case 2
        from "2.IH"(2) [OF Cons True this] obtain pre rest' where
          "rest = pre @ m @ rest'" "rest' \<in> set (matchr r (m @ rest'))" by blast
        with a have "c # cs = (a @ pre) @ m @ rest' \<and> rest' \<in> set (matchr r (m @ rest'))"
          by simp
        then show ?thesis by blast
      qed
    next
      case False
      with a have "a = []" by (cases a) (auto dest: arg_cong [of _ _ length])
      with a have rs: "rest = c # cs" by simp
      from "2.prems" Cons False consider "m = []" | "m \<in> set (findall r cs)" by auto
      then show ?thesis
      proof cases
        case 1
        with in_m rs have "c # cs = [] @ m @ rest \<and> rest \<in> set (matchr r (m @ rest))" by simp
        then show ?thesis by blast
      next
        case 2
        from "2.IH"(3) [OF Cons False this] obtain pre rest' where
          "cs = pre @ m @ rest'" "rest' \<in> set (matchr r (m @ rest'))" by blast
        then have "c # cs = (c # pre) @ m @ rest' \<and> rest' \<in> set (matchr r (m @ rest'))"
          by simp
        then show ?thesis by blast
      qed
    qed
  qed
qed

lemma matchr_digits_complete:
  "list_all is_digit d \<Longrightarrow> m \<le> length d \<Longrightarrow> length d \<le> n \<Longrightarrow>
   rest \<in> set (matchr (Rep m n Digit) (d @ rest))"
proof (induction d arbitrary: m n)
  case Nil
  then show ?case by (cases n) simp_all
next
  case (Cons c d)
  from Cons.prems(3) obtain n' where n: "n = Suc n'" by (cases n) auto
  from Cons.prems have "list_all is_digit d" "m - 1 \<le> length d" "length d \<le> n'" "is_digit c"
    using n by auto
  from Cons.IH [OF this(1,2,3)] this(4) show ?case
    by (simp add: n)
qed

lemma octet_dot_complete:
  assumes "octet d"
  shows "rest \<in> set (matchr (Seq (Rep 1 3 Digit) (Lit CHR ''.'')) (d @ CHR ''.'' # rest))"
proof -
  from assms have "CHR ''.'' # rest \<in> set (matchr (Rep 1 3 Digit) (d @ CHR ''.'' # rest))"
    by (intro matchr_digits_complete) simp_all
  moreover have "rest \<in> set (matchr (Lit CHR ''.'') (CHR ''.'' # rest))" by simp
  ultimately show ?thesis unfolding matchr_Seq_iff by blast
qed

lemma ip_port_complete:
  assumes "octet d1" "octet d2" "octet d3" "octet d4"
    and "2 \<le> length p" "length p \<le> 5" "list_all is_digit p"
  shows "rest \<in> set (matchr IP_PORT_REGEX
     (d1 @ ''.'' @ d2 @ ''.'' @ d3 @ ''.'' @ d4 @ '':'' @ p @ rest))"
proof -
  let ?X = "Seq (Rep 1 3 Digit) (Lit CHR ''.'')"
  let ?m5 = "p @ rest"
  let ?m4 = "CHR '':'' # ?m5"
  let ?m3 = "d4 @ ?m4"
  let ?m2 = "d3 @ CHR ''.'' # ?m3"
  let ?m1 = "d2 @ CHR ''.'' # ?m2"
  let ?s = "d1 @ CHR ''.'' # ?m1"
  have a1: "?m1 \<in> set (matchr ?X ?s)" using assms(1) by (rule octet_dot_complete)
  have a2: "?m2 \<in> set (matchr ?X ?m1)" using assms(2) by (rule octet_dot_complete)
  have a3: "?m3 \<in> set (matchr ?X ?m2)" using assms(3) by (rule octet_dot_complete)
  from a1 a2 a3 have b: "?m3 \<in> set (matchr (Rep 3 3 ?X) ?s)"
    unfolding matchr_Rep3 by blast
  have c: "?m4 \<in> set (matchr (Rep 1 3 Digit) ?m3)"
    using assms(4) by (intro matchr_digits_complete) simp_all
  have d: "?m5 \<in> set (matchr (Lit CHR '':'') ?m4)" by simp
  have e: "rest \<in> set (matchr (Rep 2 5 Digit) ?m5)"
    using assms(5,6,7) by (intro matchr_digits_complete) simp_all
  from b c d e have "rest \<in> set (matchr IP_PORT_REGEX ?s)"
    unfolding IP_PORT_REGEX_def matchr_Seq_iff by blast
  then show ?thesis by simp
qed

lemma findall_nonempty:
  "matchr r (drop k s) \<noteq> [] \<Longrightarrow> k \<le> length s \<Longrightarrow> findall r s \<noteq> []"
proof (induction s arbitrary: k)
  case Nil
  then show ?case by (cases "matchr r []") simp_all
next
  case (Cons c cs)
  show ?case
  proof (cases "matchr r (c # cs)")
    case Nil
    with Cons.prems(1) obtain k' where k: "k = Suc k'" by (cases k) auto
    with Cons.prems have "matchr r (drop k' cs) \<noteq> []" "k' \<le> length cs" by simp_all
    from Cons.IH [OF this] Nil show ?thesis by simp
  next
    case (Cons rest xs)
    then show ?thesis by simp
  qed
qed

lemma findall_ip_port_found:
  assumes "s = pre @ d1 @ ''.'' @ d2 @ ''.'' @ d3 @ ''.'' @ d4 @ '':'' @ p @ post"
    and "octet d1" "octet d2" "octet d3" "octet d4"
    and "2 \<le> length p" "length p \<le> 5" "list_all is_digit p"
  shows "findall IP_PORT_REGEX s \<noteq> []"
proof -
  from ip_port_complete [OF assms(2-8), of post]
  have "matchr IP_PORT_REGEX (drop (length pre) s) \<noteq> []"
    using assms(1) by auto
  then show ?thesis by (rule findall_nonempty) (simp add: assms(1))
qed

lemma collect_map_Inr:
  "collect (map f xs) = Inr ys \<Longrightarrow>
   length ys = length xs \<and> (\<forall>i < length xs. f (xs ! i) = Inr (ys ! i))"
proof (induction xs arbitrary: ys)
  case Nil
  then show ?case by simp
next
  case (Cons x xs)
  from Cons.prems obtain y ys' where y: "f x = Inr y" "collect (map f xs) = Inr ys'" "ys = y # ys'"
    by (cases "f x"; cases "collect (map f xs)") auto
  from Cons.IH [OF y(2)] have ih: "length ys' = length xs"
    "\<forall>i < length xs. f (xs ! i) = Inr (ys' ! i)" by simp_all
  have "\<forall>i < length (x # xs). f ((x # xs) ! i) = Inr (ys ! i)"
  proof (intro allI impI)
    fix i assume "i < length (x # xs)"
    then show "f ((x # xs) ! i) = Inr (ys ! i)"
      using y ih by (cases i) simp_all
  qed
  with y ih show ?case by simp
qed

lemma digits_no_colon: "list_all is_digit d \<Longrightarrow> CHR '':'' \<notin> set d"
  by (auto simp: list_all_iff dest: is_digit_facts(5))

lemma findall_ip_port_candidate:
  assumes "m \<in> set (findall IP_PORT_REGEX s)"
  obtains pre d1 d2 d3 d4 p post where
    "s = pre @ d1 @ ''.'' @ d2 @ ''.'' @ d3 @ ''.'' @ d4 @ '':'' @ p @ post"
    "m = d1 @ ''.'' @ d2 @ ''.'' @ d3 @ ''.'' @ d4 @ '':'' @ p"
    "octet d1" "octet d2" "octet d3" "octet d4"
    "2 \<le> length p" "length p \<le> 5" "list_all is_digit p"
    "parse_ip_port hint m = Inr (JStr (d1 @ ''.'' @ d2 @ ''.'' @ d3 @ ''.'' @ d4), dec_val p, hint)"
proof -
  from findall_elems_in_text [OF assms] obtain pre post where
    s: "s = pre @ m @ post" and mt: "post \<in> set (matchr IP_PORT_REGEX (m @ post))" by blast
  from ip_port_match_shape [OF mt] obtain d1 d2 d3 d4 p where
    sh: "m @ post = d1 @ ''.'' @ d2 @ ''.'' @ d3 @ ''.'' @ d4 @ '':'' @ p @ post"
    and o: "octet d1" "octet d2" "octet d3" "octet d4"
    and p: "2 \<le> length p" "length p \<le> 5" "list_all is_digit p" by blast
  let ?a = "d1 @ ''.'' @ d2 @ ''.'' @ d3 @ ''.'' @ d4"
  from sh have "m @ post = (?a @ CHR '':'' # p) @ post" by simp
  then have m: "m = ?a @ CHR '':'' # p" by (simp only: append_same_eq)
  have nocolon: "CHR '':'' \<notin> set ?a"
    using o digits_no_colon [of d1] digits_no_colon [of d2] digits_no_colon [of d3]
      digits_no_colon [of d4] by simp
  from p(1) have ne: "p \<noteq> []" by auto
  have parse: "parse_ip_port hint m = Inr (JStr ?a, dec_val p, hint)"
    unfolding m using nocolon p(3) ne by (rule parse_ip_port_match)
  have s': "s = pre @ d1 @ ''.'' @ d2 @ ''.'' @ d3 @ ''.'' @ d4 @ '':'' @ p @ post"
    unfolding s m by simp
  have m': "m = d1 @ ''.'' @ d2 @ ''.'' @ d3 @ ''.'' @ d4 @ '':'' @ p"
    unfolding m by simp
  show thesis
    by (rule that [OF s' m' o p parse])
qed

section \<open>Properties of harvesting\<close>

lemma harvest_source_text_count:
  assumes "fetch net url = Some (JStr s)"
  shows "\<exists>cs. harvest_source net name url = Inr cs \<and> length cs = length (findall IP_PORT_REGEX s)"
proof (cases "s = []")
  case True
  have "matchr IP_PORT_REGEX [] = []"
    by (simp add: IP_PORT_REGEX_def numeral_eq_Suc)
  with True assms show ?thesis by (simp add: harvest_source_def)
next
  case False
  from collect_all_ok [of "findall IP_PORT_REGEX s" "parse_ip_port (proto_hint name)" "\<lambda>c. True"]
    findall_ip_port_parse [of _ s "proto_hint name"]
  obtain cs where "collect (map (parse_ip_port (proto_hint name)) (findall IP_PORT_REGEX s)) = Inr cs"
    "length cs = length (findall IP_PORT_REGEX s)"
    by blast
  with assms False show ?thesis by (simp add: harvest_source_def)
qed

lemma scenario_findall:
  "findall IP_PORT_REGEX (''1.2.3.4:8080'' @ [CHR 0x0A] @ ''5.6.7.8:3128'' @ [CHR 0x0A])
     = [''1.2.3.4:8080'', ''5.6.7.8:3128'']"
  by (simp add: IP_PORT_REGEX_def is_digit_def numeral_eq_Suc)

lemma scenario_parse:
  "parse_ip_port hint ''1.2.3.4:8080'' = Inr (JStr ''1.2.3.4'', 8080, hint)"
  "parse_ip_port hint ''5.6.7.8:3128'' = Inr (JStr ''5.6.7.8'', 3128, hint)"
  by (simp_all add: parse_ip_port_def py_int_str_def strip_def is_space_def is_digit_def
      dec_val_def digit_val_def)

lemma harvest_source_text_eq:
  assumes "fetch net url = Some (JStr s)"
  shows "harvest_source net name url =
     collect (map (parse_ip_port (proto_hint name)) (findall IP_PORT_REGEX s))"
proof (cases "s = []")
  case True
  have "matchr IP_PORT_REGEX [] = []"
    by (simp add: IP_PORT_REGEX_def numeral_eq_Suc)
  with True assms show ?thesis by (simp add: harvest_source_def)
next
  case False
  with assms show ?thesis by (simp add: harvest_source_def)
qed

lemma harvest_source_text_candidates:
  assumes f: "fetch net url = Some (JStr s)"
    and cs: "harvest_source net name url = Inr cs"
    and c: "c \<in> set cs"
  shows "\<exists>pre d1 d2 d3 d4 p post.
     s = pre @ d1 @ ''.'' @ d2 @ ''.'' @ d3 @ ''.'' @ d4 @ '':'' @ p @ post \<and>
     octet d1 \<and> octet d2 \<and> octet d3 \<and> octet d4 \<and>
     2 \<le> length p \<and> length p \<le> 5 \<and> list_all is_digit p \<and>
     c = (JStr (d1 @ ''.'' @ d2 @ ''.'' @ d3 @ ''.'' @ d4), dec_val p, proto_hint name)"
proof -
  let ?ms = "findall IP_PORT_REGEX s"
  from cs harvest_source_text_eq [OF f, of name]
  have "collect (map (parse_ip_port (proto_hint name)) ?ms) = Inr cs" by simp
  from collect_map_Inr [OF this] have len: "length cs = length ?ms"
    and nth: "\<forall>i < length ?ms. parse_ip_port (proto_hint name) (?ms ! i) = Inr (cs ! i)"
    by simp_all
  from c obtain i where i: "i < length cs" "cs ! i = c" by (auto simp: in_set_conv_nth)
  with len have im: "?ms ! i \<in> set ?ms" by simp
  from nth i len have pc: "parse_ip_port (proto_hint name) (?ms ! i) = Inr c" by simp
  from findall_ip_port_candidate [OF im, of "proto_hint name"] obtain pre d1 d2 d3 d4 p post where
    s: "s = pre @ d1 @ ''.'' @ d2 @ ''.'' @ d3 @ ''.'' @ d4 @ '':'' @ p @ post"
    and o: "octet d1" "octet d2" "octet d3" "octet d4"
    and p: "2 \<le> length p" "length p \<le> 5" "list_all is_digit p"
    and parse: "parse_ip_port (proto_hint name) (?ms ! i) =
        Inr (JStr (d1 @ ''.'' @ d2 @ ''.'' @ d3 @ ''.'' @ d4), dec_val p, proto_hint name)"
    by metis
  from pc parse have ceq: "c = (JStr (d1 @ ''.'' @ d2 @ ''.'' @ d3 @ ''.'' @ d4), dec_val p, proto_hint name)"
    by simp
  from s o p ceq show ?thesis
    apply (elim conjE)
    apply (rule exI [of _ pre], rule exI [of _ d1], rule exI [of _ d2], rule exI [of _ d3])
    apply (rule exI [of _ d4], rule exI [of _ p], rule exI [of _ post])
    apply (intro conjI)
    apply assumption+
    done
qed

lemma harvest_source_text_found:
  assumes f: "fetch net url = Some (JStr (pre @ d1 @ ''.'' @ d2 @ ''.'' @ d3 @ ''.'' @ d4 @ '':'' @ p @ post))"
    and o: "octet d1" "octet d2" "octet d3" "octet d4"
    and p: "2 \<le> length p" "length p \<le> 5" "list_all is_digit p"
  shows "\<exists>cs. harvest_source net name url = Inr cs \<and> cs \<noteq> []"
proof -
  from harvest_source_text_count [OF f, of name] obtain cs where
    cs: "harvest_source net name url = Inr cs"
    "length cs = length (findall IP_PORT_REGEX
        (pre @ d1 @ ''.'' @ d2 @ ''.'' @ d3 @ ''.'' @ d4 @ '':'' @ p @ post))"
    by blast
  from findall_ip_port_found [OF refl o p, of pre post] cs(2) have "cs \<noteq> []" by auto
  with cs(1) show ?thesis by blast
qed

lemma sources_hints:
  "map (\<lambda>(n, u). proto_hint n) SOURCES =
     [''http'', ''socks4'', ''socks5'', ''http'', ''socks4'', ''socks5'', ''http'', ''http'', ''socks4'']"
  by (simp add: SOURCES_def proto_hint_def)

text \<open>
  C6. Every candidate of a text payload comes from a piece of the text of the shape of
  line 46 (four groups of one to three digits joined by dots, a colon, two to five
  digits): its host is the dotted part as a string, its port the decimal value of the
  digits behind the colon, and its protocol the hint of the source name. There is one
  candidate per match, and a text that holds a piece of that shape gives at least one.
  The hint is \<open>http\<close> when the name contains \<open>http\<close>, else \<open>socks5\<close> when it contains
  \<open>socks5\<close>, else \<open>socks4\<close>; the nine sources of lines 34-44 get the hints listed. For
  the blob of the scenario, from a source whose name contains \<open>http\<close>, the candidates
  are exactly the two of the claim.
\<close>

theorem harvest_source_text_scenario:
  "(fetch net url = Some (JStr s) \<longrightarrow>
      (\<exists>cs. harvest_source net name url = Inr cs \<and>
         length cs = length (findall IP_PORT_REGEX s) \<and>
         list_all (\<lambda>c. (\<exists>h. fst c = JStr h) \<and> snd (snd c) = proto_hint name) cs \<and>
         (\<forall>c \<in> set cs. \<exists>pre d1 d2 d3 d4 p post.
            s = pre @ d1 @ ''.'' @ d2 @ ''.'' @ d3 @ ''.'' @ d4 @ '':'' @ p @ post \<and>
            octet d1 \<and> octet d2 \<and> octet d3 \<and> octet d4 \<and>
            2 \<le> length p \<and> length p \<le> 5 \<and> list_all is_digit p \<and>
            c = (JStr (d1 @ ''.'' @ d2 @ ''.'' @ d3 @ ''.'' @ d4), dec_val p, proto_hint name)))) \<and>
   (fetch net url = Some (JStr (pre @ d1 @ ''.'' @ d2 @ ''.'' @ d3 @ ''.'' @ d4 @ '':'' @ p @ post)) \<and>
    octet d1 \<and> octet d2 \<and> octet d3 \<and> octet d4 \<and>
    2 \<le> length p \<and> length p \<le> 5 \<and> list_all is_digit p \<longrightarrow>
      (\<exists>cs. harvest_source net name url = Inr cs \<and> cs \<noteq> [])) \<and>
   proto_hint name =
     (if contains ''http'' name then ''http''
      else if contains ''socks5'' name then ''socks5'' else ''socks4'') \<and>
   map (\<lambda>(n, u). proto_hint n) SOURCES =
     [''http'', ''socks4'', ''socks5'', ''http'', ''socks4'', ''socks5'', ''http'', ''http'',
      ''socks4''] \<and>
   (contains ''http'' name \<longrightarrow> proto_hint name = ''http'') \<and>
   (fetch net url = Some (JStr (''1.2.3.4:8080'' @ [CHR 0x0A] @ ''5.6.7.8:3128'' @ [CHR 0x0A])) \<and>
    contains ''http'' name \<longrightarrow>
      harvest_source net name url =
        Inr [(JStr ''1.2.3.4'', 8080, ''http''), (JStr ''5.6.7.8'', 3128, ''http'')])"
proof -
  have general: "fetch net url = Some (JStr s) \<longrightarrow>
      (\<exists>cs. harvest_source net name url = Inr cs \<and>
         length cs = length (findall IP_PORT_REGEX s) \<and>
         list_all (\<lambda>c. (\<exists>h. fst c = JStr h) \<and> snd (snd c) = proto_hint name) cs \<and>
         (\<forall>c \<in> set cs. \<exists>pre d1 d2 d3 d4 p post.
            s = pre @ d1 @ ''.'' @ d2 @ ''.'' @ d3 @ ''.'' @ d4 @ '':'' @ p @ post \<and>
            octet d1 \<and> octet d2 \<and> octet d3 \<and> octet d4 \<and>
            2 \<le> length p \<and> length p \<le> 5 \<and> list_all is_digit p \<and>
            c = (JStr (d1 @ ''.'' @ d2 @ ''.'' @ d3 @ ''.'' @ d4), dec_val p, proto_hint name)))"
  proof
    assume f: "fetch net url = Some (JStr s)"
    from harvest_source_text_count [OF f, of name] obtain cs where
      cs: "harvest_source net name url = Inr cs" "length cs = length (findall IP_PORT_REGEX s)"
      by blast
    from harvest_source_text [OF f, of name] cs(1)
    have shape: "list_all (\<lambda>c. (\<exists>h. fst c = JStr h) \<and> snd (snd c) = proto_hint name) cs"
      by (auto simp: list_all_iff)
    have each: "\<forall>c \<in> set cs. \<exists>pre d1 d2 d3 d4 p post.
            s = pre @ d1 @ ''.'' @ d2 @ ''.'' @ d3 @ ''.'' @ d4 @ '':'' @ p @ post \<and>
            octet d1 \<and> octet d2 \<and> octet d3 \<and> octet d4 \<and>
            2 \<le> length p \<and> length p \<le> 5 \<and> list_all is_digit p \<and>
            c = (JStr (d1 @ ''.'' @ d2 @ ''.'' @ d3 @ ''.'' @ d4), dec_val p, proto_hint name)"
      using harvest_source_text_candidates [OF f cs(1)] by (intro ballI)
    from cs shape each
    show "\<exists>cs. harvest_source net name url = Inr cs \<and>
         length cs = length (findall IP_PORT_REGEX s) \<and>
         list_all (\<lambda>c. (\<exists>h. fst c = JStr h) \<and> snd (snd c) = proto_hint name) cs \<and>
         (\<forall>c \<in> set cs. \<exists>pre d1 d2 d3 d4 p post.
            s = pre @ d1 @ ''.'' @ d2 @ ''.'' @ d3 @ ''.'' @ d4 @ '':'' @ p @ post \<and>
            octet d1 \<and> octet d2 \<and> octet d3 \<and> octet d4 \<and>
            2 \<le> length p \<and> length p \<le> 5 \<and> list_all is_digit p \<and>
            c = (JStr (d1 @ ''.'' @ d2 @ ''.'' @ d3 @ ''.'' @ d4), dec_val p, proto_hint name))"
      by (intro exI [of _ cs] conjI)
  qed
  have found: "fetch net url = Some (JStr (pre @ d1 @ ''.'' @ d2 @ ''.'' @ d3 @ ''.'' @ d4 @ '':'' @ p @ post)) \<and>
    octet d1 \<and> octet d2 \<and> octet d3 \<and> octet d4 \<and>
    2 \<le> length p \<and> length p \<le> 5 \<and> list_all is_digit p \<longrightarrow>
      (\<exists>cs. harvest_source net name url = Inr cs \<and> cs \<noteq> [])"
  proof
    assume a: "fetch net url = Some (JStr (pre @ d1 @ ''.'' @ d2 @ ''.'' @ d3 @ ''.'' @ d4 @ '':'' @ p @ post)) \<and>
      octet d1 \<and> octet d2 \<and> octet d3 \<and> octet d4 \<and>
      2 \<le> length p \<and> length p \<le> 5 \<and> list_all is_digit p"
    then have f: "fetch net url = Some (JStr (pre @ d1 @ ''.'' @ d2 @ ''.'' @ d3 @ ''.'' @ d4 @ '':'' @ p @ post))"
      and o: "octet d1" "octet d2" "octet d3" "octet d4"
      and p: "2 \<le> length p" "length p \<le> 5" "list_all is_digit p"
      by blast+
    show "\<exists>cs. harvest_source net name url = Inr cs \<and> cs \<noteq> []"
      using f o p by (rule harvest_source_text_found)
  qed
  have hint: "proto_hint name =
     (if contains ''http'' name then ''http''
      else if contains ''socks5'' name then ''socks5'' else ''socks4'')"
    by (simp add: proto_hint_def)
  have hint_http: "contains ''http'' name \<longrightarrow> proto_hint name = ''http''"
    by (simp add: proto_hint_def)
  have scenario: "fetch net url = Some (JStr (''1.2.3.4:8080'' @ [CHR 0x0A] @ ''5.6.7.8:3128'' @ [CHR 0x0A])) \<and>
    contains ''http'' name \<longrightarrow>
      harvest_source net name url =
        Inr [(JStr ''1.2.3.4'', 8080, ''http''), (JStr ''5.6.7.8'', 3128, ''http'')]"
    using scenario_findall
    by (simp add: harvest_source_def proto_hint_def scenario_parse)
  show ?thesis
    by (intro conjI general found hint sources_hints hint_http scenario)
qed

theorem harvest_source_text_scenario_witness:
  "fetch (\<lambda>u. Reply \<lparr>status = 200, content_type = ''text/plain'', json_body = None,
                      text_body = Some (''1.2.3.4:8080'' @ [CHR 0x0A] @ ''5.6.7.8:3128'' @ [CHR 0x0A])\<rparr>)
       ''https://raw.githubusercontent.com/TheSpeedX/PROXY-List/master/http.txt''
     = Some (JStr (''1.2.3.4:8080'' @ [CHR 0x0A] @ ''5.6.7.8:3128'' @ [CHR 0x0A])) \<and>
   contains ''http'' ''the_speedx_http'' \<and>
   harvest_source
       (\<lambda>u. Reply \<lparr>status = 200, content_type = ''text/plain'', json_body = None,
                      text_body = Some (''1.2.3.4:8080'' @ [CHR 0x0A] @ ''5.6.7.8:3128'' @ [CHR 0x0A])\<rparr>)
       ''the_speedx_http''
       ''https://raw.githubusercontent.com/TheSpeedX/PROXY-List/master/http.txt''
     = Inr [(JStr ''1.2.3.4'', 8080, ''http''), (JStr ''5.6.7.8'', 3128, ''http'')] \<and>
   ''1.2.3.4:8080'' @ [CHR 0x0A] @ ''5.6.7.8:3128'' @ [CHR 0x0A]
     = [] @ ''1'' @ ''.'' @ ''2'' @ ''.'' @ ''3'' @ ''.'' @ ''4'' @ '':'' @ ''8080'' @
       ([CHR 0x0A] @ ''5.6.7.8:3128'' @ [CHR 0x0A]) \<and>
   octet ''1'' \<and> octet ''2'' \<and> octet ''3'' \<and> octet ''4'' \<and>
   2 \<le> length ''8080'' \<and> length ''8080'' \<le> 5 \<and> list_all is_digit ''8080'' \<and>
   (\<exists>cs. harvest_source
       (\<lambda>u. Reply \<lparr>status = 200, content_type = ''text/plain'', json_body = None,
                      text_body = Some (''1.2.3.4:8080'' @ [CHR 0x0A] @ ''5.6.7.8:3128'' @ [CHR 0x0A])\<rparr>)
       ''the_speedx_http''
       ''https://raw.githubusercontent.com/TheSpeedX/PROXY-List/master/http.txt'' = Inr cs \<and>
      cs \<noteq> []) \<and>
   proto_hint ''the_speedx_http'' = ''http''"
  using harvest_source_text_scenario
    [where net = "\<lambda>u. Reply \<lparr>status = 200, content_type = ''text/plain'', json_body = None,
                      text_body = Some (''1.2.3.4:8080'' @ [CHR 0x0A] @ ''5.6.7.8:3128'' @ [CHR 0x0A])\<rparr>"
       and url = "''https://raw.githubusercontent.com/TheSpeedX/PROXY-List/master/http.txt''"
       and s = "''1.2.3.4:8080'' @ [CHR 0x0A] @ ''5.6.7.8:3128'' @ [CHR 0x0A]"
       and name = "''the_speedx_http''"
       and pre = "[]" and ?d1.0 = "''1''" and ?d2.0 = "''2''" and ?d3.0 = "''3''" and ?d4.0 = "''4''"
       and p = "''8080''" and post = "[CHR 0x0A] @ ''5.6.7.8:3128'' @ [CHR 0x0A]"]
  by (simp add: fetch_def is_digit_def)

lemma geonode_item_port:
  assumes "geonode_item item = Inr r" and "c \<in> set r"
  shows "\<exists>ikv. item = JObj ikv \<and> fst c = dict_get ikv ''ip'' JNull \<and>
     py_int (dict_get ikv ''port'' (JInt 0)) = Inr (fst (snd c))"
proof (cases item)
  case (JObj ikv)
  let ?h = "dict_get ikv ''ip'' JNull"
  from assms(1) JObj obtain n where n: "py_int (dict_get ikv ''port'' (JInt 0)) = Inr n"
    by (cases "py_int (dict_get ikv ''port'' (JInt 0))") (simp_all add: geonode_item_def)
  from assms(1) JObj n obtain protos where
    protos: "py_iter (dict_get ikv ''protocols'' (JArr [])) = Inr protos"
    by (cases "py_iter (dict_get ikv ''protocols'' (JArr []))") (simp_all add: geonode_item_def)
  let ?f = "\<lambda>proto. case py_lower proto of Inl e \<Rightarrow> Inl e | Inr l \<Rightarrow> Inr (?h, n, l)"
  from assms(1) JObj n protos have col: "collect (map ?f protos) = Inr r"
    by (simp add: geonode_item_def)
  from collect_map_Inr [OF col] have len: "length r = length protos"
    and nth: "\<forall>i < length protos. ?f (protos ! i) = Inr (r ! i)" by simp_all
  from assms(2) obtain i where i: "i < length r" "r ! i = c" by (auto simp: in_set_conv_nth)
  with len nth have "?f (protos ! i) = Inr c" by simp
  then have "fst c = ?h \<and> fst (snd c) = n"
    by (cases "py_lower (protos ! i)") auto
  with JObj n show ?thesis by simp
qed (use assms in \<open>simp_all add: geonode_item_def\<close>)

lemma harvest_source_geonode_ports:
  assumes f: "fetch net url = Some (JObj kv)"
    and cs: "harvest_source net ''geonode'' url = Inr cs"
    and c: "c \<in> set cs"
  shows "\<exists>items ikv. py_iter (dict_get kv ''data'' (JArr [])) = Inr items \<and>
     JObj ikv \<in> set items \<and> fst c = dict_get ikv ''ip'' JNull \<and>
     py_int (dict_get ikv ''port'' (JInt 0)) = Inr (fst (snd c))"
proof -
  from cs c f have ne: "kv \<noteq> []" by (auto simp: harvest_source_def)
  from f cs ne obtain items where items: "py_iter (dict_get kv ''data'' (JArr [])) = Inr items"
    by (cases "py_iter (dict_get kv ''data'' (JArr []))") (simp_all add: harvest_source_def)
  from f cs ne items obtain rs where rs: "collect (map geonode_item items) = Inr rs"
    "cs = concat rs"
    by (cases "collect (map geonode_item items)") (simp_all add: harvest_source_def)
  from collect_map_Inr [OF rs(1)] have len: "length rs = length items"
    and nth: "\<forall>i < length items. geonode_item (items ! i) = Inr (rs ! i)" by simp_all
  from c rs(2) obtain r where r: "r \<in> set rs" "c \<in> set r" by auto
  then obtain i where i: "i < length rs" "rs ! i = r" by (auto simp: in_set_conv_nth)
  with len nth have gi: "geonode_item (items ! i) = Inr r" by simp
  from geonode_item_port [OF gi r(2)] obtain ikv where
    ikv: "items ! i = JObj ikv" "fst c = dict_get ikv ''ip'' JNull"
    "py_int (dict_get ikv ''port'' (JInt 0)) = Inr (fst (snd c))" by blast
  from i len ikv(1) have "JObj ikv \<in> set items" by (metis nth_mem)
  with items ikv(2,3) show ?thesis by blast
qed

lemma lower_http:
  "lower_char CHR ''h'' = CHR ''h''" "lower_char CHR ''t'' = CHR ''t''"
  "lower_char CHR ''p'' = CHR ''p''"
  by code_simp+

lemma harvest_source_geonode_int_port:
  assumes "fetch net url = Some (JObj [(''data'', JArr [JObj [(''ip'', h), (''port'', JInt n),
                                                      (''protocols'', JArr [JStr ''http''])]])])"
  shows "harvest_source net ''geonode'' url = Inr [(h, n, ''http'')]"
  using assms by (simp add: harvest_source_def geonode_item_def dict_get_def lower_http)

lemma harvest_source_geonode_str_port:
  assumes "fetch net url = Some (JObj [(''data'', JArr [JObj [(''ip'', h), (''port'', JStr ds),
                                                      (''protocols'', JArr [JStr ''http''])]])])"
    and "ds \<noteq> []" and "list_all is_digit ds"
  shows "harvest_source net ''geonode'' url = Inr [(h, dec_val ds, ''http'')]"
  using assms(1) py_int_str_digits [OF assms(3,2)]
  by (simp add: harvest_source_def geonode_item_def dict_get_def lower_http)

text \<open>
  C9, as the code has it. Nothing checks a port. From a text payload the regular
  expression takes two to five digits, so every port is an integer from 0 to 99999.
  From the structured source every candidate has the host of one item of the payload's
  \<open>data\<close> and, as its port, \<^verbatim>\<open>int\<close> of that item's \<open>port\<close> field (of 0 without the
  field), whatever integer that is: an item with the integer \<open>n\<close> gives the port \<open>n\<close>,
  an item with a string of digits gives their decimal value.
\<close>

theorem harvest_source_ports:
  "(fetch net url = Some (JStr s) \<longrightarrow>
      (\<exists>cs. harvest_source net name url = Inr cs \<and>
         list_all (\<lambda>c. 0 \<le> fst (snd c) \<and> fst (snd c) \<le> 99999) cs)) \<and>
   (fetch net url = Some (JObj kv) \<and> harvest_source net ''geonode'' url = Inr found \<longrightarrow>
      (\<forall>c \<in> set found. \<exists>items ikv.
         py_iter (dict_get kv ''data'' (JArr [])) = Inr items \<and> JObj ikv \<in> set items \<and>
         fst c = dict_get ikv ''ip'' JNull \<and>
         py_int (dict_get ikv ''port'' (JInt 0)) = Inr (fst (snd c)))) \<and>
   (fetch net url = Some (JObj [(''data'', JArr [JObj [(''ip'', h), (''port'', JInt n),
                                                      (''protocols'', JArr [JStr ''http''])]])]) \<longrightarrow>
      harvest_source net ''geonode'' url = Inr [(h, n, ''http'')]) \<and>
   (fetch net url = Some (JObj [(''data'', JArr [JObj [(''ip'', h), (''port'', JStr ds),
                                                      (''protocols'', JArr [JStr ''http''])]])]) \<and>
    ds \<noteq> [] \<and> list_all is_digit ds \<longrightarrow>
      harvest_source net ''geonode'' url = Inr [(h, dec_val ds, ''http'')])"
proof -
  have tpart: "fetch net url = Some (JStr s) \<longrightarrow>
      (\<exists>cs. harvest_source net name url = Inr cs \<and>
         list_all (\<lambda>c. 0 \<le> fst (snd c) \<and> fst (snd c) \<le> 99999) cs)"
  proof
    assume f: "fetch net url = Some (JStr s)"
    from harvest_source_text [OF f, of name] obtain cs where
      "harvest_source net name url = Inr cs"
      "list_all (\<lambda>c. (\<exists>h. fst c = JStr h) \<and> 0 \<le> fst (snd c) \<and> fst (snd c) \<le> 99999 \<and>
                   snd (snd c) = proto_hint name) cs"
      by blast
    then have "harvest_source net name url = Inr cs \<and>
         list_all (\<lambda>c. 0 \<le> fst (snd c) \<and> fst (snd c) \<le> 99999) cs"
      by (auto simp: list_all_iff)
    then show "\<exists>cs. harvest_source net name url = Inr cs \<and>
         list_all (\<lambda>c. 0 \<le> fst (snd c) \<and> fst (snd c) \<le> 99999) cs"
      by blast
  qed
  have gpart: "fetch net url = Some (JObj kv) \<and> harvest_source net ''geonode'' url = Inr found \<longrightarrow>
      (\<forall>c \<in> set found. \<exists>items ikv.
         py_iter (dict_get kv ''data'' (JArr [])) = Inr items \<and> JObj ikv \<in> set items \<and>
         fst c = dict_get ikv ''ip'' JNull \<and>
         py_int (dict_get ikv ''port'' (JInt 0)) = Inr (fst (snd c)))"
    using harvest_source_geonode_ports [of net url kv found] by blast
  have ipart: "fetch net url = Some (JObj [(''data'', JArr [JObj [(''ip'', h), (''port'', JInt n),
                                                      (''protocols'', JArr [JStr ''http''])]])]) \<longrightarrow>
      harvest_source net ''geonode'' url = Inr [(h, n, ''http'')]"
    using harvest_source_geonode_int_port [of net url h n] by blast
  have spart: "fetch net url = Some (JObj [(''data'', JArr [JObj [(''ip'', h), (''port'', JStr ds),
                                                      (''protocols'', JArr [JStr ''http''])]])]) \<and>
    ds \<noteq> [] \<and> list_all is_digit ds \<longrightarrow>
      harvest_source net ''geonode'' url = Inr [(h, dec_val ds, ''http'')]"
    using harvest_source_geonode_str_port [of net url h ds] by blast
  show ?thesis
    by (intro conjI tpart gpart ipart spart)
qed

theorem harvest_source_ports_witness:
  "fetch (\<lambda>u. Reply \<lparr>status = 200, content_type = ''text/plain'', json_body = None,
                      text_body = Some ''1.2.3.4:99999 5.6.7.8:00''\<rparr>)
       ''https://openproxylist.xyz/http.txt''
     = Some (JStr ''1.2.3.4:99999 5.6.7.8:00'') \<and>
   (\<exists>cs. harvest_source
       (\<lambda>u. Reply \<lparr>status = 200, content_type = ''text/plain'', json_body = None,
                      text_body = Some ''1.2.3.4:99999 5.6.7.8:00''\<rparr>)
       ''openproxylist_http'' ''https://openproxylist.xyz/http.txt'' = Inr cs \<and>
      list_all (\<lambda>c. 0 \<le> fst (snd c) \<and> fst (snd c) \<le> 99999) cs) \<and>
   fetch (\<lambda>u. Reply \<lparr>status = 200, content_type = ''application/json'',
            json_body = Some (JObj [(''data'', JArr [JObj [(''ip'', JStr ''5.6.7.8''),
                                (''port'', JStr ''70000''), (''protocols'', JArr [JStr ''http''])]])]),
            text_body = None\<rparr>)
       ''https://proxylist.geonode.com/api/proxy-list?limit=500&page=1&sort_by=lastChecked&sort_type=desc''
     = Some (JObj [(''data'', JArr [JObj [(''ip'', JStr ''5.6.7.8''),
                                (''port'', JStr ''70000''), (''protocols'', JArr [JStr ''http''])]])]) \<and>
   ''70000'' \<noteq> [] \<and> list_all is_digit ''70000'' \<and>
   harvest_source
       (\<lambda>u. Reply \<lparr>status = 200, content_type = ''application/json'',
            json_body = Some (JObj [(''data'', JArr [JObj [(''ip'', JStr ''5.6.7.8''),
                                (''port'', JStr ''70000''), (''protocols'', JArr [JStr ''http''])]])]),
            text_body = None\<rparr>)
       ''geonode''
       ''https://proxylist.geonode.com/api/proxy-list?limit=500&page=1&sort_by=lastChecked&sort_type=desc''
     = Inr [(JStr ''5.6.7.8'', 70000, ''http'')] \<and>
   py_int (dict_get [(''ip'', JStr ''5.6.7.8''), (''port'', JStr ''70000''),
                     (''protocols'', JArr [JStr ''http''])] ''port'' (JInt 0)) = Inr 70000"
proof -
  let ?tnet = "\<lambda>u::string. Reply \<lparr>status = 200, content_type = ''text/plain'', json_body = None,
                      text_body = Some ''1.2.3.4:99999 5.6.7.8:00''\<rparr>"
  let ?payload = "JObj [(''data'', JArr [JObj [(''ip'', JStr ''5.6.7.8''),
                                (''port'', JStr ''70000''), (''protocols'', JArr [JStr ''http''])]])]"
  let ?gnet = "\<lambda>u::string. Reply \<lparr>status = 200, content_type = ''application/json'',
            json_body = Some ?payload, text_body = None\<rparr>"
  let ?gurl = "''https://proxylist.geonode.com/api/proxy-list?limit=500&page=1&sort_by=lastChecked&sort_type=desc''"
  have dv: "dec_val ''70000'' = 70000"
    by (simp add: dec_val_def digit_val_def)
  have conv: "py_int (dict_get [(''ip'', JStr ''5.6.7.8''), (''port'', JStr ''70000''),
                     (''protocols'', JArr [JStr ''http''])] ''port'' (JInt 0)) = Inr 70000"
    by (simp add: dict_get_def py_int_str_def strip_def is_space_def is_digit_def
        dec_val_def digit_val_def)
  have tf: "fetch ?tnet ''https://openproxylist.xyz/http.txt'' = Some (JStr ''1.2.3.4:99999 5.6.7.8:00'')"
    by (simp add: fetch_def)
  have gf: "fetch ?gnet ?gurl = Some ?payload"
    by (simp add: fetch_def)
  have digits: "''70000'' \<noteq> [] \<and> list_all is_digit ''70000''"
    by (simp add: is_digit_def)
  from harvest_source_ports
      [where net = ?tnet and url = "''https://openproxylist.xyz/http.txt''"
         and s = "''1.2.3.4:99999 5.6.7.8:00''" and name = "''openproxylist_http''"]
    tf
  have a: "\<exists>cs. harvest_source ?tnet ''openproxylist_http'' ''https://openproxylist.xyz/http.txt'' = Inr cs \<and>
      list_all (\<lambda>c. 0 \<le> fst (snd c) \<and> fst (snd c) \<le> 99999) cs"
    by blast
  from harvest_source_ports
      [where net = ?gnet and url = ?gurl and h = "JStr ''5.6.7.8''" and ds = "''70000''"]
    gf digits
  have "harvest_source ?gnet ''geonode'' ?gurl = Inr [(JStr ''5.6.7.8'', dec_val ''70000'', ''http'')]"
    by blast
  then have b: "harvest_source ?gnet ''geonode'' ?gurl = Inr [(JStr ''5.6.7.8'', 70000, ''http'')]"
    by (simp only: dv)
  from tf a gf digits b conv show ?thesis by (intro conjI) blast+
qed

lemma big_port_findall:
  "findall IP_PORT_REGEX ''1.2.3.4:99999 5.6.7.8:00'' = [''1.2.3.4:99999'', ''5.6.7.8:00'']"
  by (simp add: IP_PORT_REGEX_def is_digit_def numeral_eq_Suc)

lemma big_port_parse:
  "parse_ip_port hint ''1.2.3.4:99999'' = Inr (JStr ''1.2.3.4'', 99999, hint)"
  "parse_ip_port hint ''5.6.7.8:00'' = Inr (JStr ''5.6.7.8'', 0, hint)"
  by (simp_all add: parse_ip_port_def py_int_str_def strip_def is_space_def is_digit_def
      dec_val_def digit_val_def)

text \<open>
  C9 as stated fails: a text source that lists \<^verbatim>\<open>1.2.3.4:99999\<close> and
  \<^verbatim>\<open>5.6.7.8:00\<close> gives the ports 99999 and 0, both outside 1 to 65535.
\<close>

theorem harvest_source_port_range_counterexample:
  "harvest_source
       (\<lambda>u. Reply \<lparr>status = 200, content_type = ''text/plain'', json_body = None,
                      text_body = Some ''1.2.3.4:99999 5.6.7.8:00''\<rparr>)
       ''openproxylist_http'' ''https://openproxylist.xyz/http.txt''
     = Inr [(JStr ''1.2.3.4'', 99999, ''http''), (JStr ''5.6.7.8'', 0, ''http'')] \<and>
   \<not> ((99999::int) \<le> 65535) \<and> \<not> (1 \<le> (0::int))"
  using big_port_findall
  by (simp add: harvest_source_def fetch_def proto_hint_def big_port_parse)

lemma set_add_distinct:
  "distinct (map identity acc) \<Longrightarrow> distinct (map identity (set_add acc p))"
  by (simp add: set_add_def)

lemma set_add_ids:
  "set (map identity (set_add acc p)) = insert (identity p) (set (map identity acc))"
  by (auto simp: set_add_def)

lemma set_add_subset: "set (set_add acc p) \<subseteq> insert p (set acc)"
  by (auto simp: set_add_def)

lemma foldl_set_add:
  "distinct (map identity acc) \<Longrightarrow>
   distinct (map identity (foldl set_add acc ps)) \<and>
   set (map identity (foldl set_add acc ps)) = set (map identity acc) \<union> set (map identity ps) \<and>
   set (foldl set_add acc ps) \<subseteq> set acc \<union> set ps"
proof (induction ps arbitrary: acc)
  case Nil
  then show ?case by simp
next
  case (Cons p ps)
  from Cons.IH [OF set_add_distinct [OF Cons.prems, of p]]
  have ih: "distinct (map identity (foldl set_add (set_add acc p) ps))"
    "set (map identity (foldl set_add (set_add acc p) ps)) =
       set (map identity (set_add acc p)) \<union> set (map identity ps)"
    "set (foldl set_add (set_add acc p) ps) \<subseteq> set (set_add acc p) \<union> set ps"
    by simp_all
  have a: "distinct (map identity (foldl set_add acc (p # ps)))" using ih(1) by simp
  have b: "set (map identity (foldl set_add acc (p # ps))) =
      set (map identity acc) \<union> set (map identity (p # ps))"
    using ih(2) set_add_ids [of acc p] by auto
  have c: "set (foldl set_add acc (p # ps)) \<subseteq> set acc \<union> set (p # ps)"
    using ih(3) set_add_subset [of acc p] by auto
  from a b c show ?case by blast
qed

lemma py_set_unique:
  "distinct (map identity (py_set ps)) \<and>
   set (map identity (py_set ps)) = set (map identity ps) \<and>
   set (py_set ps) \<subseteq> set ps"
  using foldl_set_add [of "[]" ps] by (simp add: py_set_def)

lemma concat_nonempty: "concat (filter (\<lambda>r. r \<noteq> []) rs) = concat rs"
  by (induction rs) auto

lemma harvest_all_merge:
  "harvest_all net = Inr out \<Longrightarrow>
   \<exists>results. collect (map (\<lambda>(name, url). harvest_source net name url) SOURCES) = Inr results \<and>
     merge_unique results = Inr out"
  by (auto simp: harvest_all_def split: sum.splits)

lemma merge_unique_example:
  "merge_unique [[(JStr ''1.2.3.4'', 80, ''http'')],
                 [(JStr ''1.2.3.4'', 80, ''http''), (JStr ''5.6.7.8'', 1080, ''socks5'')]]
     = Inr [(JStr ''1.2.3.4'', 80, ''http''), (JStr ''5.6.7.8'', 1080, ''socks5'')]"
  by (simp add: merge_unique_def py_set_def set_add_def identity_def)

lemma ab_harvest:
  "harvest_all
     (\<lambda>u. if u = ''https://raw.githubusercontent.com/TheSpeedX/PROXY-List/master/http.txt''
           then Reply \<lparr>status = 200, content_type = ''text/plain'', json_body = None,
                        text_body = Some ''1.2.3.4:80''\<rparr>
           else if u = ''https://proxylist.geonode.com/api/proxy-list?limit=500&page=1&sort_by=lastChecked&sort_type=desc''
           then Reply \<lparr>status = 200, content_type = ''application/json'',
                  json_body = Some (JObj [(''data'', JArr
                     [JObj [(''ip'', JStr ''1.2.3.4''), (''port'', JStr ''80''),
                            (''protocols'', JArr [JStr ''http''])],
                      JObj [(''ip'', JStr ''5.6.7.8''), (''port'', JStr ''1080''),
                            (''protocols'', JArr [JStr ''socks5''])]])]),
                  text_body = None\<rparr>
           else FetchRaised)
   = Inr [(JStr ''1.2.3.4'', 80, ''http''), (JStr ''5.6.7.8'', 1080, ''socks5'')]"
  by code_simp

text \<open>
  C5. Whenever every host can be hashed, the merge returns a list without two entries of
  the same identity (host, port, protocol, compared as a Python set compares them), with
  exactly the identities of the candidates of all sources, and every entry is one of
  those candidates. For a string host the identity is the tuple itself. Whatever
  \<open>harvest_all\<close> returns is such a list. For the two source lists of the claim the merge
  has exactly two entries.
\<close>

theorem merge_unique_dedup:
  "(\<not> list_ex (\<lambda>p. unhashable (fst p)) (concat results) \<longrightarrow>
      (\<exists>out. merge_unique results = Inr out \<and> distinct (map identity out) \<and> distinct out \<and>
         set (map identity out) = set (map identity (concat results)) \<and>
         set out \<subseteq> set (concat results))) \<and>
   (harvest_all net = Inr found \<longrightarrow> distinct (map identity found) \<and> distinct found) \<and>
   identity (JStr h, p, proto) = (JStr h, p, proto) \<and>
   merge_unique [[(JStr ''1.2.3.4'', 80, ''http'')],
                 [(JStr ''1.2.3.4'', 80, ''http''), (JStr ''5.6.7.8'', 1080, ''socks5'')]]
     = Inr [(JStr ''1.2.3.4'', 80, ''http''), (JStr ''5.6.7.8'', 1080, ''socks5'')] \<and>
   length [(JStr ''1.2.3.4'', 80 :: int, ''http''), (JStr ''5.6.7.8'', 1080, ''socks5'')] = 2"
proof -
  have general: "\<not> list_ex (\<lambda>p. unhashable (fst p)) (concat results) \<longrightarrow>
      (\<exists>out. merge_unique results = Inr out \<and> distinct (map identity out) \<and> distinct out \<and>
         set (map identity out) = set (map identity (concat results)) \<and>
         set out \<subseteq> set (concat results))"
  proof
    assume h: "\<not> list_ex (\<lambda>p. unhashable (fst p)) (concat results)"
    then have m: "merge_unique results = Inr (py_set (concat results))"
      by (simp add: merge_unique_def concat_nonempty Let_def)
    from py_set_unique [of "concat results"] distinct_map [of identity "py_set (concat results)"]
    have "distinct (map identity (py_set (concat results))) \<and> distinct (py_set (concat results)) \<and>
        set (map identity (py_set (concat results))) = set (map identity (concat results)) \<and>
        set (py_set (concat results)) \<subseteq> set (concat results)"
      by blast
    with m show "\<exists>out. merge_unique results = Inr out \<and> distinct (map identity out) \<and> distinct out \<and>
         set (map identity out) = set (map identity (concat results)) \<and>
         set out \<subseteq> set (concat results)"
      by blast
  qed
  have whole: "harvest_all net = Inr found \<longrightarrow> distinct (map identity found) \<and> distinct found"
  proof
    assume "harvest_all net = Inr found"
    from harvest_all_merge [OF this] obtain results where "merge_unique results = Inr found"
      by blast
    then have "found = py_set (concat (filter (\<lambda>r. r \<noteq> []) results))"
      by (auto simp: merge_unique_def Let_def split: if_splits)
    with py_set_unique [of "concat (filter (\<lambda>r. r \<noteq> []) results)"]
      distinct_map [of identity found]
    show "distinct (map identity found) \<and> distinct found" by blast
  qed
  have ident: "identity (JStr h, p, proto) = (JStr h, p, proto)"
    by (simp add: identity_def)
  from general whole ident merge_unique_example show ?thesis by simp
qed

theorem merge_unique_dedup_witness:
  "\<not> list_ex (\<lambda>p. unhashable (fst p))
       (concat [[(JStr ''1.2.3.4'', 80, ''http'')],
                [(JStr ''1.2.3.4'', 80, ''http''), (JStr ''5.6.7.8'', 1080, ''socks5'')]]) \<and>
   (\<exists>out. merge_unique [[(JStr ''1.2.3.4'', 80, ''http'')],
                [(JStr ''1.2.3.4'', 80, ''http''), (JStr ''5.6.7.8'', 1080, ''socks5'')]] = Inr out \<and>
      distinct (map identity out) \<and> distinct out \<and> length out = 2) \<and>
   harvest_all
     (\<lambda>u. if u = ''https://raw.githubusercontent.com/TheSpeedX/PROXY-List/master/http.txt''
           then Reply \<lparr>status = 200, content_type = ''text/plain'', json_body = None,
                        text_body = Some ''1.2.3.4:80''\<rparr>
           else if u = ''https://proxylist.geonode.com/api/proxy-list?limit=500&page=1&sort_by=lastChecked&sort_type=desc''
           then Reply \<lparr>status = 200, content_type = ''application/json'',
                  json_body = Some (JObj [(''data'', JArr
                     [JObj [(''ip'', JStr ''1.2.3.4''), (''port'', JStr ''80''),
                            (''protocols'', JArr [JStr ''http''])],
                      JObj [(''ip'', JStr ''5.6.7.8''), (''port'', JStr ''1080''),
                            (''protocols'', JArr [JStr ''socks5''])]])]),
                  text_body = None\<rparr>
           else FetchRaised)
   = Inr [(JStr ''1.2.3.4'', 80, ''http''), (JStr ''5.6.7.8'', 1080, ''socks5'')] \<and>
   distinct (map identity [(JStr ''1.2.3.4'', 80, ''http''), (JStr ''5.6.7.8'', 1080, ''socks5'')])"
  using merge_unique_dedup
    [of "[[(JStr ''1.2.3.4'', 80, ''http'')],
          [(JStr ''1.2.3.4'', 80, ''http''), (JStr ''5.6.7.8'', 1080, ''socks5'')]]"
        "(\<lambda>u. if u = ''https://raw.githubusercontent.com/TheSpeedX/PROXY-List/master/http.txt''
           then Reply \<lparr>status = 200, content_type = ''text/plain'', json_body = None,
                        text_body = Some ''1.2.3.4:80''\<rparr>
           else if u = ''https://proxylist.geonode.com/api/proxy-list?limit=500&page=1&sort_by=lastChecked&sort_type=desc''
           then Reply \<lparr>status = 200, content_type = ''application/json'',
                  json_body = Some (JObj [(''data'', JArr
                     [JObj [(''ip'', JStr ''1.2.3.4''), (''port'', JStr ''80''),
                            (''protocols'', JArr [JStr ''http''])],
                      JObj [(''ip'', JStr ''5.6.7.8''), (''port'', JStr ''1080''),
                            (''protocols'', JArr [JStr ''socks5''])]])]),
                  text_body = None\<rparr>
           else FetchRaised)"
        "[(JStr ''1.2.3.4'', 80, ''http''), (JStr ''5.6.7.8'', 1080, ''socks5'')]"]
    ab_harvest
  by simp

text \<open>
  A source whose GET raises, or answers with another status than 200, contributes no
  candidate; and a source other than \<open>geonode\<close> never raises, whatever its payload.
\<close>

lemma harvest_source_fetch_failed:
  "net url = FetchRaised \<or> (\<exists>r. net url = Reply r \<and> status r \<noteq> 200) \<Longrightarrow>
   harvest_source net name url = Inr []"
  by (auto simp: harvest_source_def fetch_def)

lemma harvest_source_not_geonode:
  assumes "name \<noteq> ''geonode''"
  shows "\<exists>cs. harvest_source net name url = Inr cs"
proof (cases "fetch net url")
  case None
  then show ?thesis by (simp add: harvest_source_def)
next
  case (Some raw)
  show ?thesis
  proof (cases raw)
    case (JStr s)
    with Some harvest_source_text [of net url s name] show ?thesis by blast
  qed (use Some assms in \<open>simp_all add: harvest_source_def\<close>)
qed

text \<open>
  C7 at a malformed entry of the structured source. One source gives a good text list;
  the \<open>geonode\<close> payload has an entry whose port is the string \<^verbatim>\<open>n/a\<close>. The
  conversion \<^verbatim>\<open>int\<close> of line 101 raises \<^verbatim>\<open>ValueError\<close>, nothing catches it, and
  \<open>harvest_all\<close> ends with the error: the candidate of the good source is lost with it.
\<close>

theorem harvest_all_malformed_entry:
  "harvest_source
     (\<lambda>u. if u = ''https://raw.githubusercontent.com/TheSpeedX/PROXY-List/master/http.txt''
           then Reply \<lparr>status = 200, content_type = ''text/plain'', json_body = None,
                        text_body = Some ''1.2.3.4:8080''\<rparr>
           else if u = ''https://proxylist.geonode.com/api/proxy-list?limit=500&page=1&sort_by=lastChecked&sort_type=desc''
           then Reply \<lparr>status = 200, content_type = ''application/json'',
                  json_body = Some (JObj [(''data'', JArr
                     [JObj [(''ip'', JStr ''5.6.7.8''), (''port'', JStr ''n/a''),
                            (''protocols'', JArr [JStr ''socks5''])],
                      JObj [(''ip'', JStr ''9.9.9.9''), (''port'', JStr ''1080''),
                            (''protocols'', JArr [JStr ''socks5''])]])]),
                  text_body = None\<rparr>
           else FetchRaised)
     ''the_speedx_http'' ''https://raw.githubusercontent.com/TheSpeedX/PROXY-List/master/http.txt''
   = Inr [(JStr ''1.2.3.4'', 8080, ''http'')] \<and>
   harvest_all
     (\<lambda>u. if u = ''https://raw.githubusercontent.com/TheSpeedX/PROXY-List/master/http.txt''
           then Reply \<lparr>status = 200, content_type = ''text/plain'', json_body = None,
                        text_body = Some ''1.2.3.4:8080''\<rparr>
           else if u = ''https://proxylist.geonode.com/api/proxy-list?limit=500&page=1&sort_by=lastChecked&sort_type=desc''
           then Reply \<lparr>status = 200, content_type = ''application/json'',
                  json_body = Some (JObj [(''data'', JArr
                     [JObj [(''ip'', JStr ''5.6.7.8''), (''port'', JStr ''n/a''),
                            (''protocols'', JArr [JStr ''socks5''])],
                      JObj [(''ip'', JStr ''9.9.9.9''), (''port'', JStr ''1080''),
                            (''protocols'', JArr [JStr ''socks5''])]])]),
                  text_body = None\<rparr>
           else FetchRaised)
   = Inl ValueError"
  by code_simp


end
